theory Spec2Isabelle
  imports Complex_Main
begin

section \<open>Python and tensor primitives\<close>

text \<open>
  A shallow embedding of \<^verbatim>\<open>auditory_toolbox_torch.py\<close>. Python floats and
  float64 tensor entries are modelled as \<^typ>\<open>real\<close> (rounding is not modelled),
  Python integers as \<^typ>\<open>int\<close>, a raised exception as \<open>Inl\<close> of the
  exception's class. A tensor is the list of its entries along the leading axis; every
  function below acts on the last axis of its argument row by row, so a tensor of shape
  \<open>(..., rows, time)\<close> is given as the list of its rows. The size of the last axis is read
  off the first row, so a tensor without rows is represented with a last axis of size 0.
\<close>

datatype error =
  TypeError | ValueError | IndexError | ZeroDivisionError | RuntimeError | AssertionError

text \<open>\<^verbatim>\<open>int(x)\<close> of a float truncates towards zero.\<close>

definition py_int :: "real \<Rightarrow> int" where
  "py_int x = (if 0 \<le> x then \<lfloor>x\<rfloor> else \<lceil>x\<rceil>)"

text \<open>\<^verbatim>\<open>a / b\<close> on Python numbers raises on a zero divisor.\<close>

definition py_div :: "real \<Rightarrow> real \<Rightarrow> error + real" where
  "py_div a b = (if b = 0 then Inl ZeroDivisionError else Inr (a / b))"

text \<open>\<^verbatim>\<open>math.log\<close> and \<^verbatim>\<open>math.log2\<close> raise a domain error outside the positive reals.\<close>

definition math_log :: "real \<Rightarrow> error + real" where
  "math_log x = (if x \<le> 0 then Inl ValueError else Inr (ln x))"

definition math_log2 :: "real \<Rightarrow> error + real" where
  "math_log2 x = (if x \<le> 0 then Inl ValueError else Inr (log 2 x))"

text \<open>\<^verbatim>\<open>torch.arange(lo, hi)\<close> with unit step: the integers \<open>lo, ..., hi - 1\<close>; an upper
  bound below the lower bound is refused.\<close>

definition torch_arange :: "int \<Rightarrow> int \<Rightarrow> error + int list" where
  "torch_arange lo hi = (if hi < lo then Inl RuntimeError else Inr [lo..hi - 1])"

text \<open>A slice bound \<open>i\<close> on an axis of size \<open>n\<close>: negative bounds count from the end, and
  every bound is clipped to the axis.\<close>

definition slice_bound :: "nat \<Rightarrow> int \<Rightarrow> nat" where
  "slice_bound n i = (if i < 0 then nat (int n + i) else min n (nat i))"

text \<open>\<^verbatim>\<open>xs[lo:hi]\<close>.\<close>

definition py_slice :: "'a list \<Rightarrow> int \<Rightarrow> int \<Rightarrow> 'a list" where
  "py_slice xs lo hi =
     (let a = slice_bound (length xs) lo; b = slice_bound (length xs) hi
      in take (b - a) (drop a xs))"

text \<open>\<^verbatim>\<open>xs[lo:hi] = v\<close> for a scalar \<open>v\<close>; \<^verbatim>\<open>xs[lo:] = v\<close> is the case
  \<open>hi = len(xs)\<close>.\<close>

definition slice_fill :: "'a list \<Rightarrow> int \<Rightarrow> int \<Rightarrow> 'a \<Rightarrow> 'a list" where
  "slice_fill xs lo hi v =
     (let a = slice_bound (length xs) lo; b = slice_bound (length xs) hi
      in map (\<lambda>i. if a \<le> i \<and> i < b then v else xs ! i) [0..<length xs])"

text \<open>Broadcasting of two one-dimensional operands: equal sizes combine entry by entry,
  a size of 1 is stretched, any other pair of sizes is refused.\<close>

definition broadcast2 :: "(real \<Rightarrow> real \<Rightarrow> real) \<Rightarrow> real list \<Rightarrow> real list \<Rightarrow> error + real list" where
  "broadcast2 f xs ys =
     (if length xs = length ys then Inr (map2 f xs ys)
      else if length xs = 1 then Inr (map (f (hd xs)) ys)
      else if length ys = 1 then Inr (map (\<lambda>x. f x (hd ys)) xs)
      else Inl RuntimeError)"

text \<open>\<^verbatim>\<open>xs[lo:hi] = ys\<close> for a tensor \<open>ys\<close>: the source must have the size of the slice,
  or size 1.\<close>

definition slice_assign :: "real list \<Rightarrow> int \<Rightarrow> int \<Rightarrow> real list \<Rightarrow> error + real list" where
  "slice_assign xs lo hi ys =
     (let a = slice_bound (length xs) lo; b = slice_bound (length xs) hi
      in if length ys = b - a then Inr (take a xs @ ys @ drop (a + length ys) xs)
         else if length ys = 1 then Inr (slice_fill xs lo hi (hd ys))
         else Inl RuntimeError)"

text \<open>The size of the last axis of a tensor given by its rows.\<close>

definition last_dim :: "'a list list \<Rightarrow> nat" where
  "last_dim rows = (case rows of [] \<Rightarrow> 0 | r # _ \<Rightarrow> length r)"

text \<open>Running a fallible function over a list stops at the first exception.\<close>

fun sequence :: "(error + 'a) list \<Rightarrow> error + 'a list" where
  "sequence [] = Inr []"
| "sequence (r # rs) =
     (case r of Inl e \<Rightarrow> Inl e
      | Inr x \<Rightarrow> (case sequence rs of Inl e \<Rightarrow> Inl e | Inr xs \<Rightarrow> Inr (x # xs)))"

section \<open>ERB frequency scale\<close>

definition ear_q :: real where "ear_q = 9.26449"
definition min_bw :: real where "min_bw = 24.7"

text \<open>\<^verbatim>\<open>erb_space\<close>: the operands are evaluated left to right, \<^verbatim>\<open>arange\<close> first, then the
  two logarithms. The division by \<open>n\<close> is a tensor division, which does not raise; for
  \<open>n = 0\<close> the tensor is empty. The result, of shape \<open>(n, 1)\<close>, is the list of its \<open>n\<close>
  entries.\<close>

definition erb_space :: "real \<Rightarrow> real \<Rightarrow> int \<Rightarrow> error + real list" where
  "erb_space low_freq high_freq n =
     (case torch_arange 1 (1 + n) of Inl e \<Rightarrow> Inl e
      | Inr ks \<Rightarrow>
     (case math_log (high_freq + ear_q * min_bw) of Inl e \<Rightarrow> Inl e
      | Inr lh \<Rightarrow>
     (case math_log (low_freq + ear_q * min_bw) of Inl e \<Rightarrow> Inl e
      | Inr ll \<Rightarrow>
        Inr (map (\<lambda>k. - (ear_q * min_bw) +
                   exp (real_of_int k * (- lh + ll) / real_of_int n) *
                   (high_freq + ear_q * min_bw)) ks))))"

section \<open>Gammatone coefficient designer\<close>

text \<open>The channel argument of \<^verbatim>\<open>make_erb_filters\<close> is either a channel count or the
  vector of centre frequencies itself.\<close>

datatype channels = Count int | Freqs "real list"

definition erb_order :: nat where "erb_order = 1"

text \<open>\<^verbatim>\<open>erb = ((cf/ear_q)**order + min_bw**order)**(1/order)\<close>; with \<open>order = 1\<close> the outer
  exponent is \<open>1.0\<close>, which leaves every float unchanged.\<close>

definition erb_width :: "real \<Rightarrow> real" where
  "erb_width cf = (cf / ear_q) ^ erb_order + min_bw ^ erb_order"

definition pole_decay :: "real \<Rightarrow> real" where
  "pole_decay cf = 1.019 * 2 * pi * erb_width cf"

text \<open>The four numerator variants \<open>a11..a14\<close> differ in the sign \<open>s\<close> and the constant
  \<open>k = 3 \<plusminus> 2**1.5\<close> under the root.\<close>

definition a1x :: "real \<Rightarrow> real \<Rightarrow> real \<Rightarrow> real \<Rightarrow> real" where
  "a1x s k t cf =
     - (2 * t * cos (2 * cf * pi * t) / exp (pole_decay cf * t) +
        s * (2 * sqrt k * t * sin (2 * cf * pi * t) / exp (pole_decay cf * t))) / 2"

text \<open>One of the four complex factors of the numerator of \<^verbatim>\<open>gain\<close>.\<close>

definition gain_factor :: "real \<Rightarrow> real \<Rightarrow> real \<Rightarrow> real \<Rightarrow> complex" where
  "gain_factor s k t cf =
     - 2 * exp (4 * \<i> * of_real (cf * pi * t)) * of_real t +
     2 * exp (of_real (- (pole_decay cf * t)) + 2 * \<i> * of_real (cf * pi * t)) * of_real t *
       of_real (cos (2 * cf * pi * t) + s * (sqrt k * sin (2 * cf * pi * t)))"

definition gain_denominator :: "real \<Rightarrow> real \<Rightarrow> complex" where
  "gain_denominator t cf =
     - 2 / of_real (exp (2 * pole_decay cf * t)) - 2 * exp (4 * \<i> * of_real (cf * pi * t)) +
     2 * (1 + exp (4 * \<i> * of_real (cf * pi * t))) / of_real (exp (pole_decay cf * t))"

text \<open>Tensor division does not raise; where the denominator vanishes the float result is
  infinite or not a number, which the model does not represent.\<close>

definition gain :: "real \<Rightarrow> real \<Rightarrow> real" where
  "gain t cf =
     cmod (gain_factor (- 1) (3 - 2 powr (3 / 2)) t cf * gain_factor 1 (3 - 2 powr (3 / 2)) t cf *
           gain_factor (- 1) (3 + 2 powr (3 / 2)) t cf * gain_factor 1 (3 + 2 powr (3 / 2)) t cf /
           gain_denominator t cf ^ 4)"

text \<open>\<^verbatim>\<open>make_erb_filters\<close>: the list of the ten coefficient arrays
  \<open>[a0, a11, a12, a13, a14, a2, b0, b1, b2, gain]\<close>, each of shape \<open>(len(cf), 1)\<close> and given by
  its entries. Nothing is checked: the only exceptions are the division \<^verbatim>\<open>1/fs\<close> and those of
  \<^verbatim>\<open>erb_space\<close>.\<close>

definition make_erb_filters :: "real \<Rightarrow> channels \<Rightarrow> real \<Rightarrow> error + real list list" where
  "make_erb_filters fs num_channels low_freq =
     (case py_div 1 fs of Inl e \<Rightarrow> Inl e
      | Inr t \<Rightarrow>
     (case (case num_channels of Count n \<Rightarrow> erb_space low_freq (fs / 2) n | Freqs v \<Rightarrow> Inr v) of
        Inl e \<Rightarrow> Inl e
      | Inr cf \<Rightarrow>
          Inr [map (\<lambda>_. t * 1) cf,
               map (a1x 1 (3 + 2 powr 1.5) t) cf,
               map (a1x (- 1) (3 + 2 powr 1.5) t) cf,
               map (a1x 1 (3 - 2 powr 1.5) t) cf,
               map (a1x (- 1) (3 - 2 powr 1.5) t) cf,
               map (\<lambda>_. 0 * 1) cf,
               map (\<lambda>_. 1 * 1) cf,
               map (\<lambda>f. - 2 * cos (2 * f * pi * t) / exp (pole_decay f * t)) cf,
               map (\<lambda>f. exp (- 2 * pole_decay f * t)) cf,
               map (gain t) cf]))"

section \<open>Second-order-section assembler\<close>

text \<open>The seven assertions of \<^verbatim>\<open>prepare_coefficients\<close>, in the order of the source; the
  argument is the unpacked list of ten arrays.\<close>

definition coefficient_asserts :: "real list list \<Rightarrow> bool" where
  "coefficient_asserts fcoefs =
     (let n_chan = length (fcoefs ! 0)
      in n_chan = length (fcoefs ! 1) \<and> n_chan = length (fcoefs ! 2) \<and>
         n_chan = length (fcoefs ! 3) \<and> n_chan = length (fcoefs ! 4) \<and>
         n_chan = length (fcoefs ! 6) \<and> n_chan = length (fcoefs ! 7) \<and>
         n_chan = length (fcoefs ! 9))"

text \<open>\<^verbatim>\<open>torch.cat(cols, dim=1)\<close> of arrays of shape \<open>(n, 1)\<close>: the row counts must agree; the
  result has one row per channel and one column per array.\<close>

definition cat_columns :: "real list list \<Rightarrow> error + real list list" where
  "cat_columns cols =
     (if cols = [] \<or> (\<exists>c \<in> set cols. length c \<noteq> length (hd cols)) then Inl RuntimeError
      else Inr (map (\<lambda>i. map (\<lambda>c. c ! i) cols) [0..<length (hd cols)]))"

text \<open>\<^verbatim>\<open>torch.cat(blocks, dim=1)\<close> of blocks of shape \<open>(n, 1, 5)\<close>, each given by its \<open>n\<close>
  rows: sections are stacked per channel.\<close>

definition cat_sections :: "real list list list \<Rightarrow> error + real list list list" where
  "cat_sections blocks =
     (if blocks = [] \<or> (\<exists>b \<in> set blocks. length b \<noteq> length (hd blocks) \<or>
           map length b \<noteq> map length (hd blocks)) then Inl RuntimeError
      else Inr (map (\<lambda>i. map (\<lambda>b. b ! i) blocks) [0..<length (hd blocks)]))"

text \<open>One block \<^verbatim>\<open>torch.cat([p/gain, q, r, s, d], dim=1).unsqueeze(1)\<close>.\<close>

definition section_block ::
  "real list \<Rightarrow> real list \<Rightarrow> real list \<Rightarrow> real list \<Rightarrow> real list \<Rightarrow> real list \<Rightarrow>
   error + real list list" where
  "section_block p g q r s d =
     (case broadcast2 (/) p g of Inl e \<Rightarrow> Inl e
      | Inr pg \<Rightarrow> cat_columns [pg, q, r, s, d])"

definition prepare_coefficients :: "real list list \<Rightarrow> error + real list list list" where
  "prepare_coefficients fcoefs =
     (if length fcoefs \<noteq> 10 then Inl ValueError
      else if \<not> coefficient_asserts fcoefs then Inl AssertionError
      else
        (let a0 = fcoefs ! 0; a11 = fcoefs ! 1; a12 = fcoefs ! 2; a13 = fcoefs ! 3;
             a14 = fcoefs ! 4; a2 = fcoefs ! 5; b0 = fcoefs ! 6; b1 = fcoefs ! 7;
             b2 = fcoefs ! 8; gn = fcoefs ! 9
         in case sequence [section_block a0 gn a0 a0 a0 b0,
                           section_block a11 gn a12 a13 a14 b1,
                           section_block a2 gn a2 a2 a2 b2] of
              Inl e \<Rightarrow> Inl e
            | Inr blocks \<Rightarrow> cat_sections blocks))"

section \<open>Filterbank\<close>

record ErbFilterBank =
  sampling_rate :: real
  num_channels :: int
  lowest_frequency :: real
  fcoefs :: "real list list"
  sos :: "real list list list"

text \<open>The constructor, with the default \<^verbatim>\<open>dtype=None\<close>.\<close>

definition ErbFilterBank_init :: "real \<Rightarrow> int \<Rightarrow> real \<Rightarrow> error + ErbFilterBank" where
  "ErbFilterBank_init sr n lf =
     (if sr \<le> 0 then Inl ValueError
      else if lf \<le> 0 \<or> lf \<ge> sr / 2 then Inl ValueError
      else (case make_erb_filters sr (Count n) lf of Inl e \<Rightarrow> Inl e
            | Inr fc \<Rightarrow>
           (case prepare_coefficients fc of Inl e \<Rightarrow> Inl e
            | Inr s \<Rightarrow>
                Inr \<lparr>sampling_rate = sr, num_channels = n, lowest_frequency = lf,
                      fcoefs = fc, sos = s\<rparr>)))"

text \<open>The recursive linear filter of the audio library, on one channel: with the
  coefficient vectors \<open>a\<close> (recursive part) and \<open>b\<close> (direct part),
  \<open>y[n] = (\<Sum>k. b[k] x[n-k]) / a[0] - (\<Sum>k\<ge>1. (a[k] / a[0]) y[n-k])\<close>, with samples before the
  start taken as 0. The histories hold the earlier inputs and outputs, latest first.\<close>

definition dot :: "real list \<Rightarrow> real list \<Rightarrow> real" where
  "dot cs hs = sum_list (map2 (*) cs hs)"

fun lfilter_loop :: "real list \<Rightarrow> real list \<Rightarrow> real list \<Rightarrow> real list \<Rightarrow> real list \<Rightarrow> real list" where
  "lfilter_loop a b xh yh [] = []"
| "lfilter_loop a b xh yh (x # xs) =
     (let y = dot b (x # xh) / hd a - dot (map (\<lambda>c. c / hd a) (tl a)) yh
      in y # lfilter_loop a b (x # xh) (y # yh) xs)"

definition lfilter1 :: "real list \<Rightarrow> real list \<Rightarrow> real list \<Rightarrow> real list" where
  "lfilter1 waveform a_coeffs b_coeffs = lfilter_loop a_coeffs b_coeffs [] [] waveform"

text \<open>With two-dimensional coefficients and \<^verbatim>\<open>batching=True\<close>, channel \<open>i\<close> of every batch
  element is filtered with row \<open>i\<close> of the coefficients; \<^verbatim>\<open>clamp=False\<close> leaves the output
  as it is. The waveform has shape \<open>(batch, channels, time)\<close>.\<close>

definition lfilter ::
  "real list list list \<Rightarrow> real list list \<Rightarrow> real list list \<Rightarrow> error + real list list list" where
  "lfilter waveform a_coeffs b_coeffs =
     (if map length a_coeffs \<noteq> map length b_coeffs \<or> (\<exists>a \<in> set a_coeffs. a = []) \<or>
         (\<exists>w \<in> set waveform. length w \<noteq> length a_coeffs)
      then Inl ValueError
      else Inr (map (\<lambda>w. map (\<lambda>(x, a, b). lfilter1 x a b) (zip w (zip a_coeffs b_coeffs)))
                  waveform))"

text \<open>\<^verbatim>\<open>t[..., j]\<close> on a tensor with three axes.\<close>

definition select_last :: "real list list list \<Rightarrow> int \<Rightarrow> error + real list list" where
  "select_last t j =
     (if \<exists>m \<in> set t. \<exists>r \<in> set m. j < - int (length r) \<or> int (length r) \<le> j
      then Inl IndexError
      else Inr (map (map (\<lambda>r. r ! nat (if j < 0 then int (length r) + j else j))) t))"

text \<open>One filtering pass of \<^verbatim>\<open>forward\<close>:
  \<^verbatim>\<open>lfilter(y, self.sos[..., -1], self.sos[..., j], clamp=False, batching=True)\<close>.\<close>

definition filter_pass :: "ErbFilterBank \<Rightarrow> int \<Rightarrow> real list list list \<Rightarrow> error + real list list list" where
  "filter_pass self j y =
     (case select_last (sos self) (- 1) of Inl e \<Rightarrow> Inl e
      | Inr den \<Rightarrow>
     (case select_last (sos self) j of Inl e \<Rightarrow> Inl e
      | Inr num \<Rightarrow> lfilter y den num))"

text \<open>\<^verbatim>\<open>ErbFilterBank.forward\<close> on an input of shape \<open>(batch, time)\<close>; the result has shape
  \<open>(batch, num_channels, time)\<close>. The first pass uses column 0 of the sections, the loop
  the columns 1, 2 and 3. An input with fewer than two axes is not represented.\<close>

definition forward :: "ErbFilterBank \<Rightarrow> real list list \<Rightarrow> error + real list list list" where
  "forward self x =
     (if last_dim x \<le> 1 then Inl TypeError
      else if num_channels self < 0 then Inl RuntimeError
      else
        (case filter_pass self 0 (map (replicate (nat (num_channels self))) x) of Inl e \<Rightarrow> Inl e
         | Inr y0 \<Rightarrow>
        (case filter_pass self (0 + 1) y0 of Inl e \<Rightarrow> Inl e
         | Inr y1 \<Rightarrow>
        (case filter_pass self (1 + 1) y1 of Inl e \<Rightarrow> Inl e
         | Inr y2 \<Rightarrow> filter_pass self (2 + 1) y2))))"


section \<open>Correlogram frames\<close>

text \<open>The discrete Fourier transform of the tensor library along the last axis: the
  forward transform is unnormalised with the negative exponent, the inverse transform
  carries the factor \<open>1/n\<close>.\<close>

definition fft :: "complex list \<Rightarrow> complex list" where
  "fft xs =
     (let n = length xs
      in map (\<lambda>k. \<Sum>j<n. xs ! j * cis (- (2 * pi * real j * real k / real n))) [0..<n])"

definition ifft :: "complex list \<Rightarrow> complex list" where
  "ifft xs =
     (let n = length xs
      in map (\<lambda>j. (\<Sum>k<n. xs ! k * cis (2 * pi * real j * real k / real n)) / of_nat n) [0..<n])"

text \<open>\<^verbatim>\<open>torch.real(torch.fft.ifft(f * torch.conj(f)))\<close> with \<^verbatim>\<open>f = torch.fft.fft(f)\<close>.\<close>

definition autocorrelation :: "real list \<Rightarrow> real list" where
  "autocorrelation f =
     (let g = fft (map complex_of_real f) in map Re (ifft (map (\<lambda>z. z * cnj z) g)))"

text \<open>The window \<^verbatim>\<open>ws\<close> of length \<open>win_len\<close>.\<close>

definition window :: "int list \<Rightarrow> int \<Rightarrow> real \<Rightarrow> real list" where
  "window ks win_len phi =
     (let a = 0.54; b = - 0.46; wr = sqrt (64 / 256)
      in map (\<lambda>k. 2 * wr / sqrt (4 * a * a + 2 * b * b) *
                   (a + b * cos (2 * pi * real_of_int k / real_of_int win_len + phi))) ks)"

text \<open>\<^verbatim>\<open>f[..., :(last-start)] = data[..., start:last] * ws[:(last-start)]\<close> on one row of
  the zero tensor of size \<open>fft_size\<close>.\<close>

definition windowed_row :: "real list \<Rightarrow> int \<Rightarrow> int \<Rightarrow> nat \<Rightarrow> real list \<Rightarrow> error + real list" where
  "windowed_row ws start last_pos fft_size row =
     (case broadcast2 (*) (py_slice row start last_pos) (py_slice ws 0 (last_pos - start)) of
        Inl e \<Rightarrow> Inl e
      | Inr seg \<Rightarrow> slice_assign (replicate fft_size 0) 0 (last_pos - start) seg)"

text \<open>The picture before normalisation:
  \<^verbatim>\<open>pic = torch.maximum(torch.tensor(0.0), torch.real(f[..., :pic_width]))\<close>.\<close>

definition raw_frame :: "real list list \<Rightarrow> int \<Rightarrow> int \<Rightarrow> int \<Rightarrow> error + real list list" where
  "raw_frame data pic_width start0 win_len0 =
     (let data_len = int (last_dim data);
          win_len = (if win_len0 = 0 then data_len else win_len0)
      in case math_log2 (2 * real_of_int (max pic_width win_len)) of Inl e \<Rightarrow> Inl e
         | Inr l \<Rightarrow>
        (let fft_size = py_int (2 powr real_of_int \<lceil>l\<rceil>);
             start = max 0 start0;
             last_pos = min data_len (start + win_len)
         in case py_div pi (real_of_int win_len) of Inl e \<Rightarrow> Inl e
            | Inr phi \<Rightarrow>
           (case torch_arange 0 win_len of Inl e \<Rightarrow> Inl e
            | Inr ks \<Rightarrow>
           (case sequence (map (windowed_row (window ks win_len phi) start last_pos (nat fft_size)) data) of
              Inl e \<Rightarrow> Inl e
            | Inr f \<Rightarrow>
                Inr (map (\<lambda>row. map (max 0) (py_slice (autocorrelation row) 0 pic_width)) f)))))"

text \<open>A row is good when its first column is positive and bigger than the next two.\<close>

definition good_row :: "real list \<Rightarrow> bool" where
  "good_row r = (r ! 0 > 0 \<and> (r ! 0 > r ! 1 \<and> r ! 0 > r ! 2))"

text \<open>\<^verbatim>\<open>norm_factor\<close> is \<open>1/sqrt(pic[...,0])\<close> on the good rows and 0 elsewhere;
  \<^verbatim>\<open>pic = pic * norm_factor\<close>.\<close>

definition norm_row :: "real list \<Rightarrow> real list" where
  "norm_row r = map (\<lambda>v. v * (if good_row r then 1 / sqrt (r ! 0) else 0)) r"

text \<open>\<^verbatim>\<open>correlogram_frame\<close>; indexing the columns 0, 1 and 2 needs a picture at least
  three lags wide.\<close>

definition correlogram_frame :: "real list list \<Rightarrow> int \<Rightarrow> int \<Rightarrow> int \<Rightarrow> error + real list list" where
  "correlogram_frame data pic_width start win_len =
     (case raw_frame data pic_width start win_len of Inl e \<Rightarrow> Inl e
      | Inr pic \<Rightarrow>
          if \<exists>r \<in> set pic. length r < 3 then Inl IndexError else Inr (map norm_row pic))"

section \<open>Correlogram movies\<close>

text \<open>\<^verbatim>\<open>correlogram_array\<close>: the movie is the list of its frames in time order;
  concatenating an empty list of frames is refused. The frame builder treats every row of
  the signal on its own, so the extra axis that a two-dimensional signal is given does not
  change the rows.\<close>

definition correlogram_array ::
  "real list list \<Rightarrow> real \<Rightarrow> int \<Rightarrow> int \<Rightarrow> error + real list list list" where
  "correlogram_array data sr frame_rate width =
     (let sample_len = int (last_dim data)
      in case py_div sr (real_of_int frame_rate) of Inl e \<Rightarrow> Inl e
         | Inr q \<Rightarrow>
        (let frame_increment = py_int q
         in case py_div (real_of_int (sample_len - width)) (real_of_int frame_increment) of
              Inl e \<Rightarrow> Inl e
            | Inr r \<Rightarrow>
           (let frame_count = py_int r + 1
            in case sequence (map (\<lambda>i. correlogram_frame data width (i * frame_increment)
                                          (frame_increment * 4)) [0..frame_count - 1]) of
                 Inl e \<Rightarrow> Inl e
               | Inr movie \<Rightarrow> if movie = [] then Inl RuntimeError else Inr movie)))"

section \<open>Pitch and salience\<close>

text \<open>\<^verbatim>\<open>torch.sum(correlogram[j, :, :], axis=0)\<close>.\<close>

definition channel_sum :: "real list list \<Rightarrow> real list" where
  "channel_sum frame = map (\<lambda>i. sum_list (map (\<lambda>row. row ! i) frame)) [0..<last_dim frame]"

definition window_length :: nat where "window_length = 16"

definition b_coefs :: "real list" where "b_coefs = replicate window_length 1"

definition a_coefs :: "real list" where "a_coefs = (replicate window_length 0)[0 := 1]"

text \<open>\<^verbatim>\<open>torch.argwhere(v > 0)\<close> on a vector: the indices of the positive entries, in
  increasing order.\<close>

definition argwhere_pos :: "real list \<Rightarrow> nat list" where
  "argwhere_pos v = filter (\<lambda>i. v ! i > 0) [0..<length v]"

text \<open>\<^verbatim>\<open>torch.argmax\<close> on a non-empty vector: the index of the first maximal entry.\<close>

fun argmax_from :: "real list \<Rightarrow> nat \<Rightarrow> nat \<Rightarrow> real \<Rightarrow> nat" where
  "argmax_from [] i best_i best_v = best_i"
| "argmax_from (x # xs) i best_i best_v =
     (if best_v < x then argmax_from xs (Suc i) i x else argmax_from xs (Suc i) best_i best_v)"

definition argmax :: "real list \<Rightarrow> nat" where
  "argmax v = argmax_from (tl v) 1 0 (hd v)"

text \<open>The valley search of the loop body: the summary is smoothed with the moving sum
  over \<^verbatim>\<open>window_length\<close> lags, \<^verbatim>\<open>sumdif\<close> is its first difference with the first
  \<^verbatim>\<open>window_length\<close> entries zeroed, and \<^verbatim>\<open>valleys[0, 0]\<close> is the first index where it
  is positive; indexing fails where there is none.\<close>

definition find_valley :: "real list \<Rightarrow> int \<Rightarrow> error + nat" where
  "find_valley summary width =
     (let sumfilt = lfilter1 summary a_coefs b_coefs
      in case broadcast2 (-) (py_slice sumfilt 1 width) (py_slice sumfilt 0 (width - 1)) of
           Inl e \<Rightarrow> Inl e
         | Inr sumdif0 \<Rightarrow>
            (let sumdif = slice_fill sumdif0 0 (int window_length) 0;
                 valleys = argwhere_pos sumdif
             in if valleys = [] then Inl IndexError else Inr (hd valleys)))"

text \<open>The three masks:
  \<^verbatim>\<open>summary[:valley] = 0; summary[1:drop_low] = 0; summary[drop_high:] = 0\<close>.\<close>

definition masked_summary :: "real list \<Rightarrow> nat \<Rightarrow> int \<Rightarrow> int \<Rightarrow> real list" where
  "masked_summary summary valley drop_low drop_high =
     (let s1 = slice_fill summary 0 (int valley) 0;
          s2 = slice_fill s1 1 drop_low 0
      in slice_fill s2 drop_high (int (length s2)) 0)"

text \<open>The body of the loop of \<^verbatim>\<open>correlogram_pitch\<close> for one frame: the pitch and the
  salience of the frame. Reading \<^verbatim>\<open>zero_lag\<close> fails on a summary without lags. The
  salience is \<open>None\<close> where the division by \<^verbatim>\<open>zero_lag = 0\<close> yields no finite number.\<close>

definition pitch_frame ::
  "real list list \<Rightarrow> int \<Rightarrow> real \<Rightarrow> int \<Rightarrow> int \<Rightarrow> error + real \<times> real option" where
  "pitch_frame frame width sr drop_low drop_high =
     (let summary = channel_sum frame
      in if summary = [] then Inl IndexError
         else
          (let zero_lag = summary ! 0
           in case find_valley summary width of Inl e \<Rightarrow> Inl e
              | Inr valley \<Rightarrow>
                 (let s = masked_summary summary valley drop_low drop_high;
                      p = argmax s
                  in Inr (if p > 0 then sr / real p else 0,
                          if zero_lag = 0 then None else Some (s ! p / zero_lag)))))"

text \<open>\<^verbatim>\<open>correlogram_pitch\<close> on a movie of shape \<open>(frames, channels, lags)\<close>; a tensor with
  another number of axes is not represented.\<close>

definition correlogram_pitch ::
  "real list list list \<Rightarrow> int \<Rightarrow> real \<Rightarrow> real \<Rightarrow> real \<Rightarrow> error + real list \<times> real option list" where
  "correlogram_pitch correlogram width sr low_pitch high_pitch =
     (case py_div sr high_pitch of Inl e \<Rightarrow> Inl e
      | Inr q \<Rightarrow>
        (let drop_low = py_int q;
             drop_high = (if low_pitch > 0 then min width \<lceil>sr / low_pitch\<rceil> else width)
         in case sequence (map (\<lambda>frame. pitch_frame frame width sr drop_low drop_high)
                             correlogram) of
              Inl e \<Rightarrow> Inl e
            | Inr ps \<Rightarrow> Inr (map fst ps, map snd ps)))"


section \<open>Pitch extraction as the specification words it\<close>

text \<open>A frame as \<^verbatim>\<open>correlogram_frame\<close> returns it: every channel has the same number
  of lags, no entry is negative, and no entry of a channel exceeds the channel's entry at
  lag 0.\<close>

definition valid_frame :: "real list list \<Rightarrow> bool" where
  "valid_frame frame =
     (\<forall>row \<in> set frame. length row = last_dim frame \<and> (\<forall>v \<in> set row. 0 \<le> v \<and> v \<le> row ! 0))"

text \<open>The summary of a frame after the masks, lag by lag: lags before the valley are
  zeroed, then the lags 1 to \<open>floor(sr/high_pitch) - 1\<close>, then the lags from
  \<open>ceil(sr/low_pitch)\<close> on when \<open>low_pitch > 0\<close> and from \<open>width\<close> on otherwise.\<close>

definition spec_summary ::
  "real list list \<Rightarrow> nat \<Rightarrow> int \<Rightarrow> real \<Rightarrow> real \<Rightarrow> real \<Rightarrow> real list" where
  "spec_summary frame valley width sr low_pitch high_pitch =
     map (\<lambda>i. if i < valley then 0
              else if 1 \<le> int i \<and> int i \<le> \<lfloor>sr / high_pitch\<rfloor> - 1 then 0
              else if (if low_pitch > 0 then \<lceil>sr / low_pitch\<rceil> else width) \<le> int i then 0
              else channel_sum frame ! i)
       [0..<length (channel_sum frame)]"

text \<open>A movie with one frame and one channel of 18 lags, with a peak at lag 17.\<close>

definition example_movie :: "real list list list" where
  "example_movie = [[[1, 0, 0, 0, 0, 0, 0, 0, 0, 0, 0, 0, 0, 0, 0, 0, 0, 1]]]"

section \<open>The filter cascade as difference equations\<close>

text \<open>The biquad difference equation of a second-order section with numerator
  \<open>[n0, n1, n2]\<close> and denominator \<open>[d0, d1, d2]\<close>:
  \<open>d0 y[i] = n0 x[i] + n1 x[i-1] + n2 x[i-2] - d1 y[i-1] - d2 y[i-2]\<close>,
  started at rest. The four extra arguments are the two previous inputs and outputs.\<close>

fun biquad_run ::
  "real list \<Rightarrow> real list \<Rightarrow> real \<Rightarrow> real \<Rightarrow> real \<Rightarrow> real \<Rightarrow> real list \<Rightarrow> real list" where
  "biquad_run num den x1 x2 y1 y2 [] = []"
| "biquad_run num den x1 x2 y1 y2 (x # xs) =
     (let y = (num ! 0 * x + num ! 1 * x1 + num ! 2 * x2 - den ! 1 * y1 - den ! 2 * y2) / den ! 0
      in y # biquad_run num den x x1 y y1 xs)"

definition biquad :: "real list \<Rightarrow> real list \<Rightarrow> real list \<Rightarrow> real list" where
  "biquad num den xs = biquad_run num den 0 0 0 0 xs"

text \<open>Entry \<open>k\<close> of a history, 0 before the start of the signal.\<close>

definition hist :: "real list \<Rightarrow> nat \<Rightarrow> real" where
  "hist h k = (if k < length h then h ! k else 0)"

text \<open>The buffer \<^verbatim>\<open>sos\<close> of a filterbank has shape \<open>(num_channels, 3, 5)\<close>.\<close>

definition sos_shape :: "ErbFilterBank \<Rightarrow> bool" where
  "sos_shape self =
     (int (length (sos self)) = num_channels self \<and>
      (\<forall>m \<in> set (sos self). length m = 3 \<and> (\<forall>r \<in> set m. length r = 5)))"

text \<open>Column \<open>j\<close> of the three rows of channel \<open>c\<close>, and the last column, which every
  pass uses as its denominator.\<close>

definition section_column :: "ErbFilterBank \<Rightarrow> nat \<Rightarrow> nat \<Rightarrow> real list" where
  "section_column self c j = [sos self ! c ! 0 ! j, sos self ! c ! 1 ! j, sos self ! c ! 2 ! j]"

definition stage :: "ErbFilterBank \<Rightarrow> nat \<Rightarrow> nat \<Rightarrow> real list \<Rightarrow> real list" where
  "stage self j c xs = biquad (section_column self c j) (section_column self c 4) xs"

text \<open>The cascade as the code runs it: four stages in series, with the numerators in the
  columns 0, 1, 2 and 3.\<close>

definition four_stage_cascade :: "ErbFilterBank \<Rightarrow> nat \<Rightarrow> real list \<Rightarrow> real list" where
  "four_stage_cascade self c xs = stage self 3 c (stage self 2 c (stage self 1 c (stage self 0 c xs)))"

text \<open>The cascade as the specification words it: three stages in series, one per row of
  the channel's sections, the numerator of a stage being the first three entries of its
  row, all with the shared denominator.\<close>

definition spec_three_stage_cascade :: "ErbFilterBank \<Rightarrow> nat \<Rightarrow> real list \<Rightarrow> real list" where
  "spec_three_stage_cascade self c xs =
     biquad (take 3 (sos self ! c ! 2)) (section_column self c 4)
       (biquad (take 3 (sos self ! c ! 1)) (section_column self c 4)
          (biquad (take 3 (sos self ! c ! 0)) (section_column self c 4) xs))"

text \<open>A filterbank with one channel, for concrete runs: its sections are those that
  \<^verbatim>\<open>prepare_coefficients\<close> assembles from its ten coefficient arrays.\<close>

definition example_bank :: ErbFilterBank where
  "example_bank =
     \<lparr>sampling_rate = 16000, num_channels = 1, lowest_frequency = 100,
      fcoefs = [[1], [1], [1], [1], [1], [0], [1], [- 1], [0], [2]],
      sos = [[[1 / 2, 1, 1, 1, 1], [1 / 2, 1, 1, 1, - 1], [0, 0, 0, 0, 0]]]\<rparr>"


section \<open>Runs that stop at the first exception\<close>

lemma sequence_Inr:
  "sequence rs = Inr xs \<Longrightarrow> length xs = length rs \<and> (\<forall>j < length rs. rs ! j = Inr (xs ! j))"
proof (induction rs arbitrary: xs)
  case Nil
  then show ?case by simp
next
  case (Cons r rs)
  then obtain y ys where r: "r = Inr y" and rs: "sequence rs = Inr ys" and xs: "xs = y # ys"
    by (auto split: sum.splits)
  show ?case
    using Cons.IH [OF rs] r xs by (auto simp add: nth_Cons split: nat.splits)
qed

lemma sequence_isl_head: "isl r \<Longrightarrow> isl (sequence (r # rs))"
  by (cases r) simp_all

lemma sequence_map_Inr:
  assumes "\<forall>x \<in> set xs. g x = Inr (h x)"
  shows "sequence (map g xs) = Inr (map h xs)"
  using assms by (induction xs) simp_all


section \<open>Properties of the ERB frequency scale\<close>

lemma erb_const_pos: "0 < ear_q * min_bw"
  by (simp add: ear_q_def min_bw_def)

lemma erb_space_eq:
  "erb_space low_freq high_freq n =
     (if n < 0 then Inl RuntimeError
      else if high_freq + ear_q * min_bw \<le> 0 then Inl ValueError
      else if low_freq + ear_q * min_bw \<le> 0 then Inl ValueError
      else Inr (map (\<lambda>k. - (ear_q * min_bw) +
                   exp (real_of_int k * (ln (low_freq + ear_q * min_bw) - ln (high_freq + ear_q * min_bw)) / real_of_int n) *
                   (high_freq + ear_q * min_bw)) [1..n]))"
  by (simp add: erb_space_def torch_arange_def math_log_def)

lemma erb_space_nth:
  assumes "0 \<le> n" "0 < high_freq + ear_q * min_bw" "0 < low_freq + ear_q * min_bw" "i < nat n"
  shows "projr (erb_space low_freq high_freq n) ! i =
           - (ear_q * min_bw) +
             exp (real (Suc i) * (ln (low_freq + ear_q * min_bw) - ln (high_freq + ear_q * min_bw)) / real_of_int n) *
             (high_freq + ear_q * min_bw)"
proof -
  have "[1..n] ! i = 1 + int i"
    using assms by (intro nth_upto) linarith
  moreover have "i < length [1..n]"
    using assms by simp
  ultimately show ?thesis
    using assms by (simp add: erb_space_eq add.commute)
qed

text \<open>
  Claim C4, as amended. For \<open>0 < low_freq < high_freq\<close> and \<open>n \<ge> 1\<close>, \<^verbatim>\<open>erb_space\<close>
  returns \<open>n\<close> frequencies that are strictly decreasing in the index, with
  \<open>low_freq \<le> cf[n-1] \<le> cf[0] < high_freq\<close>; the inequality \<open>cf[n-1] < cf[0]\<close> is strict
  for \<open>n \<ge> 2\<close>. (For \<open>n = 1\<close> the two entries are the same one.)
\<close>

theorem erb_space_decreasing_bounded:
  assumes low: "0 < low_freq" and high: "low_freq < high_freq" and n: "1 \<le> n"
  shows "\<exists>cf. erb_space low_freq high_freq n = Inr cf \<and> length cf = nat n \<and>
           (\<forall>i j. i < j \<and> j < nat n \<longrightarrow> cf ! j < cf ! i) \<and>
           low_freq \<le> cf ! (nat n - 1) \<and> cf ! (nat n - 1) \<le> cf ! 0 \<and> cf ! 0 < high_freq \<and>
           (2 \<le> n \<longrightarrow> cf ! (nat n - 1) < cf ! 0)"
proof -
  define c where "c = ear_q * min_bw"
  define A where "A = high_freq + c"
  define B where "B = low_freq + c"
  define d where "d = ln B - ln A"
  define cf where "cf = projr (erb_space low_freq high_freq n)"
  have c: "0 < c" unfolding c_def by (rule erb_const_pos)
  have A: "0 < A" and B: "0 < B" and BA: "B < A"
    using c low high by (simp_all add: A_def B_def)
  have d: "d < 0" unfolding d_def using A B BA by simp
  have npos: "0 < real_of_int n" using n by simp
  have ret: "erb_space low_freq high_freq n = Inr cf"
    using n A B unfolding cf_def A_def B_def c_def by (simp add: erb_space_eq)
  have len: "length cf = nat n"
    using n A B unfolding cf_def A_def B_def c_def by (simp add: erb_space_eq)
  have nth: "cf ! i = - c + exp (real (Suc i) * d / real_of_int n) * A" if "i < nat n" for i
    unfolding cf_def c_def d_def A_def B_def
    using erb_space_nth [of n high_freq low_freq i] n A B that
    unfolding A_def B_def c_def by simp
  have dec: "cf ! j < cf ! i" if "i < j" "j < nat n" for i j
  proof -
    have "real (Suc j) * d < real (Suc i) * d"
      using that d by simp
    then have "real (Suc j) * d / real_of_int n < real (Suc i) * d / real_of_int n"
      using npos by (simp add: divide_strict_right_mono)
    then have "exp (real (Suc j) * d / real_of_int n) * A < exp (real (Suc i) * d / real_of_int n) * A"
      using A by simp
    then show ?thesis using that by (simp add: nth)
  qed
  have last: "cf ! (nat n - 1) = low_freq"
  proof -
    have "real (Suc (nat n - 1)) = real_of_int n" using n by simp
    then have "cf ! (nat n - 1) = - c + exp d * A"
      using n npos nth [of "nat n - 1"] by simp
    also have "exp d = B / A"
      unfolding d_def using A B by (simp add: exp_diff)
    finally show ?thesis using A by (simp add: B_def)
  qed
  have first: "cf ! 0 < high_freq"
  proof -
    have "d / real_of_int n < 0" using d npos by (simp add: divide_neg_pos)
    then have "exp (d / real_of_int n) * A < 1 * A"
      using A by (intro mult_strict_right_mono) simp_all
    then show ?thesis using n nth [of 0] by (simp add: A_def)
  qed
  have le: "cf ! (nat n - 1) \<le> cf ! 0"
  proof (cases "nat n - 1 = 0")
    case True
    then show ?thesis by simp
  next
    case False
    then have "0 < nat n - 1" "nat n - 1 < nat n" using n by simp_all
    then show ?thesis using dec [of 0 "nat n - 1"] by simp
  qed
  have strict: "cf ! (nat n - 1) < cf ! 0" if "2 \<le> n"
  proof -
    have "0 < nat n - 1" "nat n - 1 < nat n" using that by simp_all
    then show ?thesis using dec [of 0 "nat n - 1"] by simp
  qed
  show ?thesis
    using ret len dec last first le strict by (intro exI [of _ cf]) auto
qed

text \<open>The theorem at \<open>low_freq = 100\<close>, \<open>high_freq = 1000\<close>, \<open>n = 3\<close>.\<close>

theorem erb_space_decreasing_bounded_witness:
  "\<exists>cf. erb_space 100 1000 3 = Inr cf \<and> length cf = 3 \<and>
      cf ! 2 < cf ! 1 \<and> cf ! 1 < cf ! 0 \<and> 100 \<le> cf ! 2 \<and> cf ! 0 < 1000"
proof -
  obtain cf where cf: "erb_space 100 1000 3 = Inr cf" "length cf = nat 3"
      "\<forall>i j. i < j \<and> j < nat 3 \<longrightarrow> cf ! j < cf ! i"
      "100 \<le> cf ! (nat 3 - 1)" "cf ! 0 < 1000"
    using erb_space_decreasing_bounded [of 100 1000 3] by auto
  have "cf ! 2 < cf ! 1" "cf ! 1 < cf ! 0"
    using cf(3) by simp_all
  then show ?thesis using cf by (intro exI [of _ cf]) simp
qed

text \<open>
  Claim C4 as stated fails for a single channel: \<^verbatim>\<open>erb_space(100, 1000, 1)\<close> is the
  one frequency 100, so \<open>cf[n-1] < cf[0]\<close> compares an entry with itself.
\<close>

theorem erb_space_single_channel_counterexample:
  "erb_space 100 1000 1 = Inr [100] \<and>
   \<not> (projr (erb_space 100 1000 1) ! (nat 1 - 1) < projr (erb_space 100 1000 1) ! 0)"
  by (simp add: erb_space_eq ear_q_def min_bw_def upto.simps exp_diff)

text \<open>
  Claim C6, as amended. \<^verbatim>\<open>erb_space\<close> validates nothing itself: it fails exactly when
  \<open>n < 0\<close> (the index range is refused) or when \<open>high_freq + ear_q * min_bw \<le> 0\<close> or
  \<open>low_freq + ear_q * min_bw \<le> 0\<close> (the logarithm is undefined). Every other call returns
  \<open>n\<close> frequencies; in particular every call with \<open>0 < low_freq < high_freq\<close> and
  \<open>n \<ge> 1\<close> does.
\<close>

theorem erb_space_failures:
  "(isl (erb_space low_freq high_freq n) \<longleftrightarrow>
      n < 0 \<or> high_freq + ear_q * min_bw \<le> 0 \<or> low_freq + ear_q * min_bw \<le> 0) \<and>
   (\<forall>cf. erb_space low_freq high_freq n = Inr cf \<longrightarrow> length cf = nat n) \<and>
   (0 < low_freq \<and> low_freq < high_freq \<and> 1 \<le> n \<longrightarrow> \<not> isl (erb_space low_freq high_freq n))"
  using erb_const_pos by (auto simp add: erb_space_eq)

text \<open>The theorem at \<open>low_freq = 100\<close>, \<open>high_freq = 1000\<close>, \<open>n = 3\<close>.\<close>

theorem erb_space_failures_witness:
  "\<not> isl (erb_space 100 1000 3) \<and> length (projr (erb_space 100 1000 3)) = 3"
proof -
  have "\<not> isl (erb_space 100 1000 3)"
    using erb_space_failures [of 100 1000 3] by (simp add: ear_q_def min_bw_def)
  moreover have "length (projr (erb_space 100 1000 3)) = 3"
    using erb_space_failures [of 100 1000 3] calculation by (cases "erb_space 100 1000 3") auto
  ultimately show ?thesis by simp
qed

text \<open>
  Claim C6 as stated fails: a non-positive \<open>low_freq\<close>, a \<open>high_freq\<close> below
  \<open>low_freq\<close> and \<open>n = 0\<close> are all accepted.
\<close>

theorem erb_space_unvalidated_counterexample:
  "map_sum id length (erb_space (- 1) 1000 5) = Inr 5 \<and>
   map_sum id length (erb_space 1000 100 5) = Inr 5 \<and>
   erb_space 100 1000 0 = Inr []"
  by (simp add: erb_space_eq ear_q_def min_bw_def)

section \<open>Properties of the coefficient designer and the section assembler\<close>

lemma make_erb_filters_freqs:
  "isl (make_erb_filters fs (Freqs cf) low_freq) \<longleftrightarrow> fs = 0"
  by (simp add: make_erb_filters_def py_div_def)

lemma make_erb_filters_count:
  "isl (make_erb_filters fs (Count n) low_freq) \<longleftrightarrow> fs = 0 \<or> isl (erb_space low_freq (fs / 2) n)"
  by (cases "erb_space low_freq (fs / 2) n") (simp_all add: make_erb_filters_def py_div_def)

text \<open>
  Claim C7, as amended. The validation lives in the constructor of the filterbank, which
  calls the designer: it fails with \<^verbatim>\<open>ValueError\<close> whenever the sampling rate is not
  positive, or the lowest frequency is not positive or not below half the sampling rate.
  \<^verbatim>\<open>make_erb_filters\<close> itself checks nothing: on a vector of centre frequencies it fails
  only for \<open>fs = 0\<close> (the division \<open>1/fs\<close>), and on a channel count only for \<open>fs = 0\<close> or
  where \<^verbatim>\<open>erb_space\<close> fails.
\<close>

theorem designer_validation:
  "(sr \<le> 0 \<or> lf \<le> 0 \<or> lf \<ge> sr / 2 \<longrightarrow> ErbFilterBank_init sr n lf = Inl ValueError) \<and>
   (isl (make_erb_filters fs (Freqs cf) low_freq) \<longleftrightarrow> fs = 0) \<and>
   (isl (make_erb_filters fs (Count n) low_freq) \<longleftrightarrow>
      fs = 0 \<or> isl (erb_space low_freq (fs / 2) n))"
  using make_erb_filters_freqs [of fs cf low_freq] make_erb_filters_count [of fs n low_freq]
  by (auto simp add: ErbFilterBank_init_def)

text \<open>The theorem at a lowest frequency of 9000 Hz and a sampling rate of 16000 Hz.\<close>

theorem designer_validation_witness:
  "ErbFilterBank_init 16000 64 9000 = Inl ValueError \<and>
   \<not> isl (make_erb_filters 16000 (Freqs [100, 200]) 100)"
  using designer_validation [of 16000 9000 64 16000 "[100, 200]" 100] by simp

text \<open>
  Claim C7 as stated fails: the designer accepts a centre frequency above half the
  sampling rate, a negative centre frequency, and a negative sampling rate.
\<close>

theorem designer_unvalidated_counterexample:
  "\<not> isl (make_erb_filters 16000 (Freqs [9000, - 5]) 100) \<and>
   \<not> isl (make_erb_filters (- 16000) (Freqs [1000]) 100) \<and>
   \<not> isl (make_erb_filters (- 100) (Count 2) 100)"
  by (simp add: make_erb_filters_freqs make_erb_filters_count erb_space_eq ear_q_def min_bw_def)

text \<open>
  Claim C9 (a defect of the code). The assertions compare the channel count of \<open>a0\<close>
  with those of \<open>a11\<close>, \<open>a12\<close>, \<open>a13\<close>, \<open>a14\<close>, \<open>b0\<close>, \<open>b1\<close> and \<open>gain\<close>, and leave out
  \<open>a2\<close> and \<open>b2\<close>. A list whose \<open>a2\<close> has two channels while the other nine arrays have
  one passes every assertion; the mismatch is then met by the concatenation, which
  fails with a runtime error and not with the assertion.
\<close>

theorem prepare_coefficients_asserts_skip_a2:
  "coefficient_asserts [[1], [1], [1], [1], [1], [0, 0], [1], [1], [1], [1]] \<and>
   length ([[1], [1], [1], [1], [1], [0, 0], [1], [1], [1], [1 :: real]] ! 5) \<noteq>
   length ([[1], [1], [1], [1], [1], [0, 0], [1], [1], [1], [1 :: real]] ! 0) \<and>
   prepare_coefficients [[1], [1], [1], [1], [1], [0, 0], [1], [1], [1], [1]] = Inl RuntimeError"
  by (simp add: prepare_coefficients_def coefficient_asserts_def section_block_def
      broadcast2_def cat_columns_def)


subsection \<open>The shape of the assembled sections\<close>

lemma cat_columns_same:
  assumes "cols \<noteq> []" "\<forall>c \<in> set cols. length c = m"
  shows "\<exists>rows. cat_columns cols = Inr rows \<and> length rows = m \<and>
           (\<forall>r \<in> set rows. length r = length cols)"
proof -
  have "length (hd cols) = m"
    using assms by (cases cols) simp_all
  then show ?thesis
    using assms by (auto simp add: cat_columns_def)
qed

lemma section_block_same:
  assumes "length p = m" "length g = m" "length q = m" "length r = m" "length s = m" "length d = m"
  shows "\<exists>rows. section_block p g q r s d = Inr rows \<and> length rows = m \<and>
           (\<forall>row \<in> set rows. length row = 5)"
proof -
  have div: "broadcast2 (/) p g = Inr (map2 (/) p g)"
    using assms by (simp add: broadcast2_def)
  obtain rows where rows: "cat_columns [map2 (/) p g, q, r, s, d] = Inr rows" "length rows = m"
      "\<forall>row \<in> set rows. length row = length [map2 (/) p g, q, r, s, d]"
    using cat_columns_same [of "[map2 (/) p g, q, r, s, d]" m] assms by auto
  have "\<forall>row \<in> set rows. length row = 5"
    using rows(3) by simp
  then show ?thesis
    using div rows(1,2) by (simp add: section_block_def)
qed

lemma prepare_coefficients_shape:
  assumes "length fc = 10" "\<forall>a \<in> set fc. length a = m"
  shows "\<exists>s. prepare_coefficients fc = Inr s \<and> length s = m \<and>
           (\<forall>ch \<in> set s. length ch = 3 \<and> (\<forall>r \<in> set ch. length r = 5))"
proof -
  have len: "length (fc ! i) = m" if "i < 10" for i
    using assms that by simp
  have asserts: "coefficient_asserts fc"
    by (simp add: coefficient_asserts_def len)
  obtain b1 where b1: "section_block (fc ! 0) (fc ! 9) (fc ! 0) (fc ! 0) (fc ! 0) (fc ! 6) = Inr b1"
      "length b1 = m" "\<forall>row \<in> set b1. length row = 5"
    using section_block_same [of "fc ! 0" m "fc ! 9" "fc ! 0" "fc ! 0" "fc ! 0" "fc ! 6"]
    by (auto simp add: len)
  obtain b2 where b2: "section_block (fc ! 1) (fc ! 9) (fc ! 2) (fc ! 3) (fc ! 4) (fc ! 7) = Inr b2"
      "length b2 = m" "\<forall>row \<in> set b2. length row = 5"
    using section_block_same [of "fc ! 1" m "fc ! 9" "fc ! 2" "fc ! 3" "fc ! 4" "fc ! 7"]
    by (auto simp add: len)
  obtain b3 where b3: "section_block (fc ! 5) (fc ! 9) (fc ! 5) (fc ! 5) (fc ! 5) (fc ! 8) = Inr b3"
      "length b3 = m" "\<forall>row \<in> set b3. length row = 5"
    using section_block_same [of "fc ! 5" m "fc ! 9" "fc ! 5" "fc ! 5" "fc ! 5" "fc ! 8"]
    by (auto simp add: len)
  have lens: "map length b1 = replicate m 5" "map length b2 = replicate m 5"
      "map length b3 = replicate m 5"
    using b1 b2 b3 by (simp_all add: map_replicate_const cong: map_cong)
  define s where "s = map (\<lambda>i. map (\<lambda>b. b ! i) [b1, b2, b3]) [0..<m]"
  have cat: "cat_sections [b1, b2, b3] = Inr s"
    using b1(2) b2(2) b3(2) lens by (simp add: cat_sections_def s_def)
  have ret: "prepare_coefficients fc = Inr s"
    using assms(1) asserts b1(1) b2(1) b3(1) cat by (simp add: prepare_coefficients_def)
  have "length ch = 3 \<and> (\<forall>r \<in> set ch. length r = 5)" if mem: "ch \<in> set s" for ch
  proof -
    obtain i where i: "i < m" and ch: "ch = [b1 ! i, b2 ! i, b3 ! i]"
      using mem by (auto simp add: s_def)
    then show ?thesis
      using b1 b2 b3 by simp
  qed
  then show ?thesis
    using ret by (intro exI [of _ s]) (simp add: s_def)
qed

lemma make_erb_filters_shape:
  assumes "make_erb_filters fs (Count n) low_freq = Inr fc"
  shows "0 \<le> n \<and> length fc = 10 \<and> (\<forall>a \<in> set fc. length a = nat n)"
proof -
  obtain cf where cf: "erb_space low_freq (fs / 2) n = Inr cf"
      and fc: "\<forall>a \<in> set fc. length a = length cf" "length fc = 10"
    using assms
    by (auto simp add: make_erb_filters_def py_div_def split: if_splits sum.splits)
  have "0 \<le> n" and "length cf = nat n"
    using cf by (auto simp add: erb_space_def torch_arange_def math_log_def split: if_splits)
  then show ?thesis using fc by simp
qed

text \<open>Every filterbank that the constructor returns has sections of the shape
  \<open>(num_channels, 3, 5)\<close>, and the constructor returns on every valid argument.\<close>

lemma constructor_shape:
  assumes "ErbFilterBank_init sr n lf = Inr self"
  shows "sos_shape self"
proof -
  obtain fc s where fc: "make_erb_filters sr (Count n) lf = Inr fc"
      and s: "prepare_coefficients fc = Inr s"
      and self: "self = \<lparr>sampling_rate = sr, num_channels = n, lowest_frequency = lf,
                        fcoefs = fc, sos = s\<rparr>"
    using assms by (auto simp add: ErbFilterBank_init_def split: if_splits sum.splits)
  have n: "0 \<le> n" and len: "length fc = 10" "\<forall>a \<in> set fc. length a = nat n"
    using make_erb_filters_shape [OF fc] by simp_all
  obtain s' where "prepare_coefficients fc = Inr s'" "length s' = nat n"
      "\<forall>ch \<in> set s'. length ch = 3 \<and> (\<forall>r \<in> set ch. length r = 5)"
    using prepare_coefficients_shape [OF len] by blast
  then show ?thesis
    using s n by (simp add: sos_shape_def self)
qed

lemma constructor_returns:
  assumes "0 < sr" "0 < lf" "lf < sr / 2" "0 \<le> n"
  shows "\<exists>self. ErbFilterBank_init sr n lf = Inr self \<and> sos_shape self \<and> num_channels self = n"
proof -
  have c: "0 < ear_q * min_bw"
    by (simp add: ear_q_def min_bw_def)
  define cf where "cf = projr (erb_space lf (sr / 2) n)"
  have cf: "erb_space lf (sr / 2) n = Inr cf" and cflen: "length cf = nat n"
    using assms c unfolding cf_def
    by (simp_all add: erb_space_def torch_arange_def math_log_def)
  obtain fc where fc: "make_erb_filters sr (Count n) lf = Inr fc"
      and fclen: "length fc = 10" "\<forall>a \<in> set fc. length a = nat n"
    using assms(1) cf cflen by (simp add: make_erb_filters_def py_div_def)
  obtain s where s: "prepare_coefficients fc = Inr s"
    using prepare_coefficients_shape [OF fclen] by blast
  define self where "self = \<lparr>sampling_rate = sr, num_channels = n, lowest_frequency = lf,
                        fcoefs = fc, sos = s\<rparr>"
  have ret: "ErbFilterBank_init sr n lf = Inr self"
    using assms fc s by (simp add: ErbFilterBank_init_def self_def)
  show ?thesis
    using ret constructor_shape [OF ret] by (intro exI [of _ self]) (simp add: self_def)
qed

section \<open>Properties of the filterbank\<close>

lemma dot3: "dot [c0, c1, c2] (x # h) = c0 * x + c1 * hist h 0 + c2 * hist h 1"
  by (cases h; cases "tl h") (auto simp add: dot_def hist_def)

lemma dot2: "dot [c1, c2] h = c1 * hist h 0 + c2 * hist h 1"
  by (cases h; cases "tl h") (auto simp add: dot_def hist_def)

lemma hist_Cons: "hist (x # h) 0 = x" "hist (x # h) (Suc 0) = hist h 0"
  by (simp_all add: hist_def)

lemma lfilter_loop_biquad:
  "lfilter_loop [a0, a1, a2] [b0, b1, b2] xh yh xs =
     biquad_run [b0, b1, b2] [a0, a1, a2] (hist xh 0) (hist xh 1) (hist yh 0) (hist yh 1) xs"
proof (induction xs arbitrary: xh yh)
  case Nil
  then show ?case by simp
next
  case (Cons x xs)
  have "dot [b0, b1, b2] (x # xh) / a0 - dot [a1 / a0, a2 / a0] yh =
        (b0 * x + b1 * hist xh 0 + b2 * hist xh 1 - a1 * hist yh 0 - a2 * hist yh 1) / a0"
    by (simp add: dot3 dot2 diff_divide_distrib add_divide_distrib)
  then show ?case
    using Cons.IH by (simp add: Let_def hist_Cons)
qed

lemma lfilter1_biquad:
  "lfilter1 xs [a0, a1, a2] [b0, b1, b2] = biquad [b0, b1, b2] [a0, a1, a2] xs"
  by (simp add: lfilter1_def biquad_def lfilter_loop_biquad hist_def)


lemma select_last_shape:
  assumes "sos_shape self" "j \<in> {- 1, 0, 1, 2, 3}"
  shows "select_last (sos self) j =
           Inr (map (map (\<lambda>r. r ! (if j = - 1 then 4 else nat j))) (sos self))"
proof -
  have len: "length r = 5" if "m \<in> set (sos self)" "r \<in> set m" for m r
    using assms(1) that by (auto simp add: sos_shape_def)
  have ok: "\<not> (\<exists>m \<in> set (sos self). \<exists>r \<in> set m. j < - int (length r) \<or> int (length r) \<le> j)"
    using assms(2) len by auto
  have "map (map (\<lambda>r. r ! nat (if j < 0 then int (length r) + j else j))) (sos self) =
        map (map (\<lambda>r. r ! (if j = - 1 then 4 else nat j))) (sos self)"
    using assms(2) len by (intro map_cong refl) auto
  then show ?thesis
    using ok by (simp add: select_last_def)
qed


lemma map_three: "length m = 3 \<Longrightarrow> map f m = [f (m ! 0), f (m ! 1), f (m ! 2)]"
  by (cases m; cases "tl m"; cases "tl (tl m)") auto

lemma filter_pass_stage:
  assumes shape: "sos_shape self" and j: "j \<in> {0, 1, 2, 3}"
    and y: "\<forall>w \<in> set y. length w = length (sos self)"
  shows "filter_pass self (int j) y =
           Inr (map (\<lambda>w. map (\<lambda>c. stage self j c (w ! c)) [0..<length (sos self)]) y)"
proof -
  define den where "den = map (map (\<lambda>r. r ! 4)) (sos self)"
  define num where "num = map (map (\<lambda>r. r ! j)) (sos self)"
  have three: "length m = 3" if "m \<in> set (sos self)" for m
    using shape that by (simp add: sos_shape_def)
  have sel_den: "select_last (sos self) (- 1) = Inr den"
    using select_last_shape [OF shape, of "- 1"] by (simp add: den_def)
  have sel_num: "select_last (sos self) (int j) = Inr num"
    using select_last_shape [OF shape, of "int j"] j by (auto simp add: num_def)
  have lens: "map length den = map length num"
    by (simp add: den_def num_def)
  have nonempty: "\<not> (\<exists>a \<in> set den. a = [])"
    using three by (fastforce simp add: den_def)
  have wlen: "\<not> (\<exists>w \<in> set y. length w \<noteq> length den)"
    using y by (simp add: den_def)
  have den_nth: "den ! c = section_column self c 4" if "c < length (sos self)" for c
    using that three [of "sos self ! c"] by (simp add: den_def section_column_def map_three)
  have num_nth: "num ! c = section_column self c j" if "c < length (sos self)" for c
    using that three [of "sos self ! c"] by (simp add: num_def section_column_def map_three)
  have row: "map (\<lambda>(x, a, b). lfilter1 x a b) (zip w (zip den num)) =
             map (\<lambda>c. stage self j c (w ! c)) [0..<length (sos self)]"
    if "w \<in> set y" for w
  proof (rule nth_equalityI)
    show "length (map (\<lambda>(x, a, b). lfilter1 x a b) (zip w (zip den num))) =
          length (map (\<lambda>c. stage self j c (w ! c)) [0..<length (sos self)])"
      using y that by (simp add: den_def num_def)
  next
    fix c
    assume "c < length (map (\<lambda>(x, a, b). lfilter1 x a b) (zip w (zip den num)))"
    then have c: "c < length (sos self)"
      by (simp add: den_def num_def)
    then have cw: "c < length w" using y that by simp
    have "lfilter1 (w ! c) (den ! c) (num ! c) = stage self j c (w ! c)"
      using c by (simp add: den_nth num_nth section_column_def stage_def lfilter1_biquad)
    then show "map (\<lambda>(x, a, b). lfilter1 x a b) (zip w (zip den num)) ! c =
               map (\<lambda>c. stage self j c (w ! c)) [0..<length (sos self)] ! c"
      using c cw by (simp add: den_def num_def)
  qed
  have "lfilter y den num =
          Inr (map (\<lambda>w. map (\<lambda>(x, a, b). lfilter1 x a b) (zip w (zip den num))) y)"
    using lens nonempty wlen by (simp add: lfilter_def)
  also have "map (\<lambda>w. map (\<lambda>(x, a, b). lfilter1 x a b) (zip w (zip den num))) y =
             map (\<lambda>w. map (\<lambda>c. stage self j c (w ! c)) [0..<length (sos self)]) y"
    using row by (intro map_cong refl) simp
  finally show ?thesis
    by (simp add: filter_pass_def sel_den sel_num)
qed


text \<open>
  Claim C2, as amended. On an input with more than one sample per row, a filterbank whose
  sections have the shape \<open>(num_channels, 3, 5)\<close> returns a result of shape
  \<open>(batch, num_channels, time)\<close> whose channel \<open>c\<close> of batch element \<open>i\<close> is the series
  composition of four biquad difference equations applied to row \<open>i\<close> of the input: the
  stages take their numerators from the columns 0, 1, 2 and 3 of the three rows of the
  channel's sections, in this order, and share the denominator in column 4. Each channel
  and each batch element is filtered on its own.
\<close>

theorem forward_four_stage_cascade:
  assumes shape: "sos_shape self" and time: "1 < last_dim x"
  shows "\<exists>y. forward self x = Inr y \<and> length y = length x \<and>
           (\<forall>i < length x. length (y ! i) = nat (num_channels self) \<and>
              (\<forall>c < nat (num_channels self). y ! i ! c = four_stage_cascade self c (x ! i)))"
proof -
  define N where "N = length (sos self)"
  define pass where
    "pass j y = map (\<lambda>w. map (\<lambda>c. stage self j c (w ! c)) [0..<N]) y" for j and y :: "real list list list"
  define t0 where "t0 = map (replicate N) x"
  have N: "num_channels self = int N"
    using shape by (simp add: sos_shape_def N_def)
  have pass_len: "\<forall>w \<in> set (pass j y). length w = length (sos self)" for j y
    by (simp add: pass_def N_def)
  have t0_len: "\<forall>w \<in> set t0. length w = length (sos self)"
    by (simp add: t0_def N_def)
  define y0 where "y0 = pass 0 t0"
  define y1 where "y1 = pass 1 y0"
  define y2 where "y2 = pass 2 y1"
  define y where "y = pass 3 y2"
  have p0: "filter_pass self 0 t0 = Inr y0"
    using filter_pass_stage [OF shape _ t0_len, of 0] by (simp add: pass_def N_def y0_def)
  have p1: "filter_pass self 1 y0 = Inr y1"
    using filter_pass_stage [OF shape _ pass_len, of 1 0 t0]
    by (simp add: pass_def N_def y0_def y1_def)
  have p2: "filter_pass self 2 y1 = Inr y2"
    using filter_pass_stage [OF shape _ pass_len, of 2 1 y0]
    by (simp add: pass_def N_def y1_def y2_def)
  have p3: "filter_pass self 3 y2 = Inr y"
    using filter_pass_stage [OF shape _ pass_len, of 3 2 y1]
    by (simp add: pass_def N_def y2_def y_def)
  have ret: "forward self x = Inr y"
    using time by (simp add: forward_def N t0_def [symmetric] p0 p1 p2 p3)
  have len: "length y = length x"
    by (simp add: y_def y2_def y1_def y0_def pass_def t0_def)
  have pass_nth: "pass j z ! i ! c = stage self j c (z ! i ! c)" if "i < length z" "c < N" for j z i c
    using that by (simp add: pass_def)
  have pass_length: "length (pass j z) = length z" for j z
    by (simp add: pass_def)
  have chan: "length (y ! i) = nat (num_channels self)" if "i < length x" for i
    using that by (simp add: y_def y2_def y1_def y0_def pass_def t0_def N)
  have val: "y ! i ! c = four_stage_cascade self c (x ! i)" if "i < length x" "c < nat (num_channels self)" for i c
  proof -
    have c: "c < N" using that N by simp
    have i: "i < length t0" using that by (simp add: t0_def)
    have "t0 ! i ! c = x ! i"
      using that c by (simp add: t0_def)
    then show ?thesis
      using c i
      by (simp add: y_def y2_def y1_def y0_def pass_nth pass_length four_stage_cascade_def)
  qed
  show ?thesis
    using ret len chan val by (intro exI [of _ y]) simp
qed

lemma example_bank_shape: "sos_shape example_bank"
  by (simp add: sos_shape_def example_bank_def)

lemma example_cascade: "four_stage_cascade example_bank 0 [1, 0, 0, 0] = [1 / 2, 4, 16, 44]"
  by (simp add: four_stage_cascade_def stage_def section_column_def biquad_def example_bank_def
      Let_def)

text \<open>The theorem on the one-channel example bank and a unit impulse of four samples.\<close>

theorem forward_four_stage_cascade_witness:
  "sos_shape example_bank \<and> 1 < last_dim [[1, 0, 0, 0 :: real]] \<and>
   (\<exists>y. forward example_bank [[1, 0, 0, 0]] = Inr y \<and> y ! 0 ! 0 = [1 / 2, 4, 16, 44])"
proof -
  have time: "1 < last_dim [[1, 0, 0, 0 :: real]]"
    by (simp add: last_dim_def)
  obtain y where "forward example_bank [[1, 0, 0, 0]] = Inr y"
      and "y ! 0 ! 0 = four_stage_cascade example_bank 0 ([[1, 0, 0, 0]] ! 0)"
    using forward_four_stage_cascade [OF example_bank_shape time]
    by (auto simp add: example_bank_def)
  then show ?thesis
    using example_bank_shape time example_cascade by auto
qed

lemma example_pass:
  "lfilter [[x]] [[1, - 1, 0]] [[n0, n1, 0]] = Inr [[lfilter1 x [1, - 1, 0] [n0, n1, 0]]]"
  by (simp add: lfilter_def)

text \<open>
  Claim C2 as stated fails. On the example bank, whose sections are the ones
  \<^verbatim>\<open>prepare_coefficients\<close> assembles, the response to a unit impulse is
  \<open>[1/2, 4, 16, 44]\<close>. The three-stage cascade of the specification gives \<open>[0, 0, 0, 0]\<close>,
  and the first three of the four passes of the code give \<open>[1/2, 3, 9, 19]\<close>.
\<close>

theorem forward_three_stage_counterexample:
  "prepare_coefficients (fcoefs example_bank) = Inr (sos example_bank) \<and>
   forward example_bank [[1, 0, 0, 0]] = Inr [[[1 / 2, 4, 16, 44]]] \<and>
   spec_three_stage_cascade example_bank 0 [1, 0, 0, 0] = [0, 0, 0, 0] \<and>
   stage example_bank 2 0 (stage example_bank 1 0 (stage example_bank 0 0 [1, 0, 0, 0])) =
     [1 / 2, 3, 9, 19] \<and>
   forward example_bank [[1, 0, 0, 0]] \<noteq>
     Inr [[spec_three_stage_cascade example_bank 0 [1, 0, 0, 0]]]"
proof -
  have prep: "prepare_coefficients (fcoefs example_bank) = Inr (sos example_bank)"
    by (simp add: prepare_coefficients_def coefficient_asserts_def section_block_def
        broadcast2_def cat_columns_def cat_sections_def example_bank_def)
  have fwd: "forward example_bank [[1, 0, 0, 0]] = Inr [[[1 / 2, 4, 16, 44]]]"
    by (simp add: forward_def filter_pass_def select_last_def last_dim_def example_pass
        lfilter1_def dot_def example_bank_def)
  have spec: "spec_three_stage_cascade example_bank 0 [1, 0, 0, 0] = [0, 0, 0, 0]"
    by (simp add: spec_three_stage_cascade_def section_column_def biquad_def example_bank_def
        Let_def)
  have three: "stage example_bank 2 0 (stage example_bank 1 0 (stage example_bank 0 0 [1, 0, 0, 0])) =
     [1 / 2, 3, 9, 19]"
    by (simp add: stage_def section_column_def biquad_def example_bank_def Let_def)
  show ?thesis
    using prep fwd spec three by simp
qed

section \<open>Properties of the correlogram frame builder\<close>

lemma norm_row_length [simp]: "length (norm_row r) = length r"
  by (simp add: norm_row_def)

lemma norm_row_good:
  assumes "good_row r" "r \<noteq> []"
  shows "norm_row r ! 0 = sqrt (r ! 0)"
proof -
  have "0 < r ! 0" using assms(1) by (simp add: good_row_def)
  then have "r ! 0 * (1 / sqrt (r ! 0)) = sqrt (r ! 0)"
    by (simp add: real_div_sqrt)
  then show ?thesis
    using assms by (simp add: norm_row_def)
qed

lemma norm_row_bad: "\<not> good_row r \<Longrightarrow> v \<in> set (norm_row r) \<Longrightarrow> v = 0"
  by (auto simp add: norm_row_def)

text \<open>
  Claim C1, as amended. Whenever \<^verbatim>\<open>correlogram_frame\<close> returns, every good channel
  (lag-0 value of the clipped autocorrelation positive and bigger than the values at the
  lags 1 and 2) is rescaled by \<open>1/sqrt(lag0)\<close>, so that its lag-0 value in the frame is the
  square root of the lag-0 value of the clipped autocorrelation; it is 1 exactly when that
  value is 1. Every other channel is zero at every lag.
\<close>

theorem correlogram_frame_normalisation:
  assumes "correlogram_frame data pic_width start win_len = Inr pic"
  shows "\<exists>raw. raw_frame data pic_width start win_len = Inr raw \<and> length pic = length raw \<and>
           (\<forall>c < length raw.
              (good_row (raw ! c) \<longrightarrow>
                 pic ! c ! 0 = sqrt (raw ! c ! 0) \<and> (pic ! c ! 0 = 1 \<longleftrightarrow> raw ! c ! 0 = 1)) \<and>
              (\<not> good_row (raw ! c) \<longrightarrow> (\<forall>v \<in> set (pic ! c). v = 0)))"
proof -
  obtain raw where raw: "raw_frame data pic_width start win_len = Inr raw"
      and wide: "\<forall>r \<in> set raw. \<not> length r < 3" and pic: "pic = map norm_row raw"
    using assms by (auto simp add: correlogram_frame_def split: sum.splits if_splits)
  have "pic ! c ! 0 = sqrt (raw ! c ! 0) \<and> (pic ! c ! 0 = 1 \<longleftrightarrow> raw ! c ! 0 = 1)"
    if "c < length raw" "good_row (raw ! c)" for c
  proof -
    have "raw ! c \<noteq> []" using wide that(1) by (metis list.size(3) nth_mem zero_less_numeral)
    then have "pic ! c ! 0 = sqrt (raw ! c ! 0)"
      using that by (simp add: pic norm_row_good)
    then show ?thesis by simp
  qed
  moreover have "\<forall>v \<in> set (pic ! c). v = 0" if "c < length raw" "\<not> good_row (raw ! c)" for c
    using that norm_row_bad by (auto simp add: pic)
  ultimately show ?thesis
    using raw pic by (intro exI [of _ raw]) simp
qed


subsection \<open>The autocorrelation of a single sample\<close>

lemma fft_length [simp]: "length (fft xs) = length xs"
  by (simp add: fft_def Let_def)

lemma ifft_length [simp]: "length (ifft xs) = length xs"
  by (simp add: ifft_def Let_def)

lemma fft_nth:
  "k < length xs \<Longrightarrow>
   fft xs ! k = (\<Sum>j<length xs. xs ! j * cis (- (2 * pi * real j * real k / real (length xs))))"
  by (simp add: fft_def Let_def)

lemma ifft_nth:
  "j < length xs \<Longrightarrow>
   ifft xs ! j =
     (\<Sum>k<length xs. xs ! k * cis (2 * pi * real j * real k / real (length xs))) / of_nat (length xs)"
  by (simp add: ifft_def Let_def)

lemma autocorrelation_length [simp]: "length (autocorrelation f) = length f"
  by (simp add: autocorrelation_def Let_def)

lemma fft_impulse: "fft (v # replicate m 0) = replicate (Suc m) v"
proof (rule nth_equalityI)
  show "length (fft (v # replicate m 0)) = length (replicate (Suc m) v)"
    by simp
next
  fix k
  assume "k < length (fft (v # replicate m 0))"
  then have k: "k < Suc m" by simp
  define w where "w = (\<lambda>j. cis (- (2 * pi * real j * real k / real (Suc m))))"
  have len: "length (v # replicate m 0) = Suc m"
    by simp
  have "fft (v # replicate m 0) ! k = (\<Sum>j<Suc m. (v # replicate m 0) ! j * w j)"
    using k unfolding w_def by (simp only: fft_nth len)
  also have "\<dots> = (v # replicate m 0) ! 0 * w 0 + (\<Sum>j<m. (v # replicate m 0) ! Suc j * w (Suc j))"
    by (rule sum.lessThan_Suc_shift)
  also have "\<dots> = v"
    by (simp add: w_def)
  finally show "fft (v # replicate m 0) ! k = replicate (Suc m) v ! k"
    using k by (simp only: nth_replicate)
qed

lemma roots_of_unity_sum:
  assumes "0 < j" "j < n"
  shows "(\<Sum>k<n. cis (2 * pi * real j * real k / real n)) = 0"
proof -
  define z where "z = cis (2 * pi * real j / real n)"
  have zk: "cis (2 * pi * real j * real k / real n) = z ^ k" for k
    by (simp add: z_def DeMoivre mult.commute mult.left_commute)
  have "z \<noteq> 1"
  proof
    assume "z = 1"
    then have "cos (2 * pi * real j / real n) = 1"
      by (simp add: z_def complex_eq_iff)
    then obtain m :: int where m: "2 * pi * real j / real n = of_int m * 2 * pi"
      using cos_one_2pi_int by blast
    have "real j / real n = (2 * pi * real j / real n) / (2 * pi)"
      by simp
    also have "\<dots> = (of_int m * 2 * pi) / (2 * pi)"
      by (simp only: m)
    also have "\<dots> = of_int m"
      by simp
    finally have "real j / real n = of_int m" .
    then have "real j = of_int m * real n"
      using assms by (simp add: field_simps)
    then have "int j = m * int n"
      by (metis of_int_mult of_int_of_nat_eq of_int_eq_iff)
    then have "int n dvd int j" by simp
    then have "n dvd j" by (simp only: int_dvd_int_iff)
    then show False
      using assms by (simp add: nat_dvd_not_less)
  qed
  moreover have "z ^ n = 1"
  proof -
    have "z ^ n = cis (2 * pi * real j)"
      using assms by (simp add: z_def DeMoivre)
    also have "\<dots> = 1"
      by (rule cis_multiple_2pi) simp
    finally show ?thesis .
  qed
  ultimately have "(\<Sum>k<n. z ^ k) = 0"
    by (simp add: geometric_sum)
  then show ?thesis
    by (simp add: zk)
qed

lemma ifft_constant:
  assumes "j < n"
  shows "ifft (replicate n c) ! j = (if j = 0 then c else 0)"
proof -
  have n: "0 < n" using assms by simp
  have "ifft (replicate n c) ! j =
          (\<Sum>k<n. c * cis (2 * pi * real j * real k / real n)) / of_nat n"
    using assms by (simp add: ifft_nth)
  also have "\<dots> = c * (\<Sum>k<n. cis (2 * pi * real j * real k / real n)) / of_nat n"
    by (simp add: sum_distrib_left)
  also have "\<dots> = (if j = 0 then c else 0)"
    using n assms roots_of_unity_sum [of j n] by simp
  finally show ?thesis .
qed

lemma autocorrelation_impulse:
  "autocorrelation (v # replicate m 0) = v * v # replicate m 0"
proof (rule nth_equalityI)
  show "length (autocorrelation (v # replicate m 0)) = length (v * v # replicate m 0)"
    by simp
next
  fix j
  assume "j < length (autocorrelation (v # replicate m 0))"
  then have j: "j < Suc m" by simp
  have "map complex_of_real (v # replicate m 0) = complex_of_real v # replicate m 0"
    by simp
  then have "fft (map complex_of_real (v # replicate m 0)) = replicate (Suc m) (complex_of_real v)"
    by (simp only: fft_impulse)
  then have "autocorrelation (v # replicate m 0) =
               map Re (ifft (replicate (Suc m) (complex_of_real v * cnj (complex_of_real v))))"
    by (simp add: autocorrelation_def del: replicate_Suc)
  then have "autocorrelation (v # replicate m 0) ! j =
               Re (ifft (replicate (Suc m) (complex_of_real v * cnj (complex_of_real v))) ! j)"
    using j by (simp del: replicate_Suc)
  also have "\<dots> = (if j = 0 then v * v else 0)"
    using j by (simp add: ifft_constant del: replicate_Suc)
  also have "\<dots> = (v * v # replicate m 0) ! j"
    using j by (cases j) simp_all
  finally show "autocorrelation (v # replicate m 0) ! j = (v * v # replicate m 0) ! j" .
qed


lemma sqrt_quarter: "sqrt (1 / 4) = 1 / 2"
  by (rule real_sqrt_unique) (simp_all add: power2_eq_square)

lemma log2_8: "log 2 8 = 3"
proof -
  have "log 2 (2 ^ 3) = real 3" by (rule log_pow_cancel) simp_all
  then show ?thesis by simp
qed

lemma single_window: "window [0] 1 pi = [1 / sqrt (1987 / 1250)]"
proof -
  have "(4 * 0.54 * 0.54 + 2 * (- 0.46) * (- 0.46) :: real) = 1987 / 1250"
    by simp
  then show ?thesis
    by (simp add: window_def sqrt_quarter)
qed

lemma single_windowed_row:
  "windowed_row [k] 0 1 8 [1] = Inr (k # replicate 7 0)"
  by (simp add: windowed_row_def py_slice_def slice_bound_def broadcast2_def slice_assign_def
      numeral_eq_Suc)

lemma single_picture:
  "map (max 0) (py_slice (autocorrelation (k # replicate 7 0)) 0 4) = [k * k, 0, 0, 0]"
  unfolding autocorrelation_impulse
  by (simp add: py_slice_def slice_bound_def numeral_eq_Suc)

lemma single_raw_frame:
  "raw_frame [[1]] 4 0 0 = Inr [[1250 / 1987, 0, 0, 0]]"
proof -
  have "(1 / sqrt (1987 / 1250)) * (1 / sqrt (1987 / 1250)) = (1250 / 1987 :: real)"
    by (simp add: real_sqrt_divide field_simps)
  then show ?thesis
    by (simp add: raw_frame_def last_dim_def math_log2_def log2_8 py_int_def py_div_def
        torch_arange_def single_window single_windowed_row single_picture)
qed

lemma single_good_row: "good_row [1250 / 1987, 0, 0, 0]"
  by (simp add: good_row_def)

lemma single_frame:
  "correlogram_frame [[1]] 4 0 0 = Inr [[sqrt (1250 / 1987), 0, 0, 0]]"
proof -
  have "(1250 / 1987) * (1 / sqrt (1250 / 1987)) = sqrt (1250 / 1987 :: real)"
    using real_div_sqrt [of "1250 / 1987"] by simp
  then show ?thesis
    using single_good_row by (simp add: correlogram_frame_def single_raw_frame norm_row_def)
qed

text \<open>The theorem on a signal of one channel and one sample, with four lags.\<close>

theorem correlogram_frame_normalisation_witness:
  "correlogram_frame [[1]] 4 0 0 = Inr [[sqrt (1250 / 1987), 0, 0, 0]] \<and>
   (\<exists>raw. raw_frame [[1]] 4 0 0 = Inr raw \<and> good_row (raw ! 0) \<and>
      [[sqrt (1250 / 1987), 0, 0, 0]] ! 0 ! 0 = sqrt (raw ! 0 ! 0))"
proof -
  obtain raw where raw: "raw_frame [[1]] 4 0 0 = Inr raw"
      and good: "good_row (raw ! 0) \<longrightarrow> [[sqrt (1250 / 1987), 0, 0, 0]] ! 0 ! 0 = sqrt (raw ! 0 ! 0)"
    using correlogram_frame_normalisation [OF single_frame] by fastforce
  have "good_row (raw ! 0)"
    using raw single_good_row by (auto simp add: single_raw_frame)
  then show ?thesis
    using raw good single_frame by blast
qed

text \<open>
  Claim C1 as stated fails. For the signal of one channel with the single sample 1 and
  four lags, the clipped autocorrelation of the windowed signal is \<open>[1250/1987, 0, 0, 0]\<close>:
  the channel is good, and its lag-0 value in the frame is \<open>sqrt(1250/1987)\<close>, not 1.
\<close>

theorem correlogram_frame_unit_counterexample:
  "raw_frame [[1]] 4 0 0 = Inr [[1250 / 1987, 0, 0, 0]] \<and>
   good_row [1250 / 1987, 0, 0, 0] \<and>
   correlogram_frame [[1]] 4 0 0 = Inr [[sqrt (1250 / 1987), 0, 0, 0]] \<and>
   sqrt (1250 / 1987) \<noteq> 1"
  using single_raw_frame single_good_row single_frame by simp

subsection \<open>The frame builder returns on ordinary inputs\<close>

lemma windowed_row_returns:
  assumes ws: "length ws = nat win_len" and start: "0 \<le> start" "start \<le> int (length row)"
    and win: "0 < win_len" and fft: "win_len \<le> int fft_size"
  shows "\<exists>f. windowed_row ws start (min (int (length row)) (start + win_len)) fft_size row = Inr f \<and>
           length f = fft_size"
proof -
  define last_pos where "last_pos = min (int (length row)) (start + win_len)"
  define d where "d = last_pos - start"
  have d: "0 \<le> d" "d \<le> win_len" "start \<le> last_pos" "last_pos \<le> int (length row)"
    using start win by (simp_all add: d_def last_pos_def)
  define seg where "seg = map2 (*) (py_slice row start last_pos) (py_slice ws 0 d)"
  have n1: "nat start \<le> length row" "nat last_pos \<le> length row" "nat start \<le> nat last_pos"
    using d start by linarith+
  have sb1: "slice_bound (length row) start = nat start"
    "slice_bound (length row) last_pos = nat last_pos"
    using d start n1 by (simp_all add: slice_bound_def)
  have nd: "nat last_pos - nat start = nat d"
    using d start unfolding d_def by linarith
  have "nat d \<le> length row - nat start"
    using nd n1 by linarith
  then have l1: "length (py_slice row start last_pos) = nat d"
    using nd by (simp add: py_slice_def sb1 Let_def)
  have "nat d \<le> length ws"
    using d ws by linarith
  then have l2: "length (py_slice ws 0 d) = nat d"
    using d by (simp add: py_slice_def slice_bound_def Let_def)
  have prod: "broadcast2 (*) (py_slice row start last_pos) (py_slice ws 0 d) = Inr seg"
    using l1 l2 by (simp add: broadcast2_def seg_def)
  have seglen: "length seg = nat d"
    using l1 l2 by (simp add: seg_def)
  have bound: "nat d \<le> fft_size"
    using d fft by linarith
  have "slice_assign (replicate fft_size 0) 0 d seg =
          Inr (seg @ drop (nat d) (replicate fft_size 0))"
    using d seglen bound by (simp add: slice_assign_def slice_bound_def min_def)
  moreover have "length (seg @ drop (nat d) (replicate fft_size 0)) = fft_size"
    using seglen bound by simp
  ultimately show ?thesis
    using prod unfolding windowed_row_def last_pos_def [symmetric] d_def [symmetric] by simp
qed


lemma fft_size_bound:
  assumes "0 < m"
  shows "2 * m \<le> py_int (2 powr real_of_int \<lceil>log 2 (2 * real_of_int m)\<rceil>)"
proof -
  define l where "l = log 2 (2 * real_of_int m)"
  have "2 * real_of_int m = 2 powr l"
    using assms by (simp add: l_def)
  also have "\<dots> \<le> 2 powr real_of_int \<lceil>l\<rceil>"
    by (intro powr_mono) simp_all
  finally have "real_of_int (2 * m) \<le> 2 powr real_of_int \<lceil>l\<rceil>"
    by simp
  then have "2 * m \<le> \<lfloor>2 powr real_of_int \<lceil>l\<rceil>\<rfloor>"
    by (simp only: le_floor_iff)
  then show ?thesis
    by (simp add: py_int_def l_def)
qed

lemma raw_frame_returns:
  assumes rect: "\<forall>row \<in> set data. length row = last_dim data"
    and pw: "0 < pic_width" and win: "0 < win_len"
    and start: "0 \<le> start" "start \<le> int (last_dim data)"
  shows "\<exists>raw. raw_frame data pic_width start win_len = Inr raw \<and> length raw = length data \<and>
           (\<forall>r \<in> set raw. length r = nat pic_width)"
proof -
  define T where "T = int (last_dim data)"
  define F where "F = py_int (2 powr real_of_int \<lceil>log 2 (2 * real_of_int (max pic_width win_len))\<rceil>)"
  define ws where "ws = window [0..win_len - 1] win_len (pi / real_of_int win_len)"
  define g where "g = windowed_row ws start (min T (start + win_len)) (nat F)"
  have F: "2 * max pic_width win_len \<le> F"
    unfolding F_def using pw by (intro fft_size_bound) simp
  have wslen: "length ws = nat win_len"
    using win by (simp add: ws_def window_def)
  have row: "\<exists>f. g row = Inr f \<and> length f = nat F" if mem: "row \<in> set data" for row
  proof -
    have len: "int (length row) = T"
      using rect mem by (simp add: T_def)
    have "win_len \<le> int (nat F)"
      using F by linarith
    then show ?thesis
      using windowed_row_returns [OF wslen, of start row "nat F"] start win len
      by (simp add: g_def T_def)
  qed
  then have "\<forall>row \<in> set data. g row = Inr (projr (g row))"
    by fastforce
  then have seq: "sequence (map g data) = Inr (map (\<lambda>row. projr (g row)) data)"
    by (rule sequence_map_Inr)
  define raw where
    "raw = map (\<lambda>row. map (max 0) (py_slice (autocorrelation row) 0 pic_width))
             (map (\<lambda>row. projr (g row)) data)"
  have mpos: "\<not> real_of_int (max pic_width win_len) \<le> 0"
    using pw by simp
  have ret: "raw_frame data pic_width start win_len = Inr raw"
    using win start seq mpos
    by (simp add: raw_frame_def Let_def math_log2_def py_div_def torch_arange_def
        T_def [symmetric] F_def [symmetric] ws_def [symmetric] g_def [symmetric] raw_def
        del: of_int_max)
  have "length r = nat pic_width" if mem: "r \<in> set raw" for r
  proof -
    obtain row where "row \<in> set data"
        and r: "r = map (max 0) (py_slice (autocorrelation (projr (g row))) 0 pic_width)"
      using mem by (auto simp add: raw_def)
    then obtain f where "g row = Inr f" "length f = nat F"
      using row by blast
    then have "length (projr (g row)) = nat F"
      by simp
    moreover have "nat pic_width \<le> nat F"
      using F pw by linarith
    ultimately show ?thesis
      using pw by (simp add: r py_slice_def slice_bound_def Let_def)
  qed
  then show ?thesis
    using ret by (intro exI [of _ raw]) (simp add: raw_def)
qed

lemma correlogram_frame_returns:
  assumes "\<forall>row \<in> set data. length row = last_dim data"
    and "3 \<le> pic_width" and "0 < win_len"
    and "0 \<le> start" "start \<le> int (last_dim data)"
  shows "\<exists>pic. correlogram_frame data pic_width start win_len = Inr pic \<and>
           length pic = length data \<and> (\<forall>r \<in> set pic. length r = nat pic_width)"
proof -
  obtain raw where raw: "raw_frame data pic_width start win_len = Inr raw"
      "length raw = length data" "\<forall>r \<in> set raw. length r = nat pic_width"
    using raw_frame_returns [of data pic_width win_len start] assms by auto
  have "\<not> (\<exists>r \<in> set raw. length r < 3)"
    using raw(3) assms(2) by auto
  then have "correlogram_frame data pic_width start win_len = Inr (map norm_row raw)"
    using raw(1) by (simp add: correlogram_frame_def)
  then show ?thesis
    using raw(2,3) by (simp add: norm_row_def)
qed

subsection \<open>The frames of the builder are valid frames\<close>

lemma slice_bound_le: "slice_bound n i \<le> n"
proof (cases "i < 0")
  case True
  then have "nat (int n + i) \<le> n" by linarith
  then show ?thesis using True by (simp add: slice_bound_def)
next
  case False
  then show ?thesis by (simp add: slice_bound_def)
qed

lemma slice_assign_length:
  assumes "slice_assign xs lo hi ys = Inr zs"
  shows "length zs = length xs"
proof -
  define a where "a = slice_bound (length xs) lo"
  define b where "b = slice_bound (length xs) hi"
  have ab: "a \<le> length xs" "b \<le> length xs"
    by (simp_all add: a_def b_def slice_bound_le)
  show ?thesis
  proof (cases "length ys = b - a")
    case True
    then have "zs = take a xs @ ys @ drop (a + length ys) xs"
      using assms by (auto simp add: slice_assign_def a_def b_def Let_def)
    then show ?thesis
      using True ab by simp
  next
    case False
    then have "zs = slice_fill xs lo hi (hd ys)"
      using assms by (auto simp add: slice_assign_def a_def b_def Let_def split: if_splits)
    then show ?thesis
      by (simp add: slice_fill_def)
  qed
qed

lemma windowed_row_length:
  "windowed_row ws start last_pos fft_size row = Inr f \<Longrightarrow> length f = fft_size"
  by (auto simp add: windowed_row_def split: sum.splits dest: slice_assign_length)

lemma autocorrelation_nth:
  assumes "m < length f"
  shows "autocorrelation f ! m =
           (\<Sum>k<length f. (cmod (fft (map complex_of_real f) ! k))\<^sup>2 *
               cos (2 * pi * real m * real k / real (length f))) / real (length f)"
proof -
  define g where "g = fft (map complex_of_real f)"
  define n where "n = length f"
  have glen: "length g = n"
    by (simp add: g_def n_def)
  have "autocorrelation f ! m = Re (ifft (map (\<lambda>z. z * cnj z) g) ! m)"
    using assms by (simp add: autocorrelation_def g_def)
  also have "\<dots> = Re ((\<Sum>k<n. map (\<lambda>z. z * cnj z) g ! k * cis (2 * pi * real m * real k / real n)) /
                      of_nat n)"
    using assms by (simp add: ifft_nth glen n_def)
  also have "\<dots> = (\<Sum>k<n. Re (map (\<lambda>z. z * cnj z) g ! k * cis (2 * pi * real m * real k / real n))) /
                      real n"
    by (simp add: Re_divide_of_nat)
  also have "(\<Sum>k<n. Re (map (\<lambda>z. z * cnj z) g ! k * cis (2 * pi * real m * real k / real n))) =
             (\<Sum>k<n. (cmod (g ! k))\<^sup>2 * cos (2 * pi * real m * real k / real n))"
  proof (rule sum.cong)
    fix k
    assume "k \<in> {..<n}"
    then have "map (\<lambda>z. z * cnj z) g ! k = complex_of_real ((cmod (g ! k))\<^sup>2)"
      by (simp add: glen complex_norm_square del: of_real_power)
    then show "Re (map (\<lambda>z. z * cnj z) g ! k * cis (2 * pi * real m * real k / real n)) =
               (cmod (g ! k))\<^sup>2 * cos (2 * pi * real m * real k / real n)"
      by simp
  qed simp
  finally show ?thesis
    by (simp add: g_def n_def)
qed

lemma autocorrelation_le_zero_lag:
  assumes "m < length f"
  shows "autocorrelation f ! m \<le> autocorrelation f ! 0"
proof -
  define n where "n = length f"
  define p where "p = (\<lambda>k. (cmod (fft (map complex_of_real f) ! k))\<^sup>2)"
  have n: "0 < n" using assms by (cases f) (simp_all add: n_def)
  have "(\<Sum>k<n. p k * cos (2 * pi * real m * real k / real n)) \<le> (\<Sum>k<n. p k * 1)"
    by (intro sum_mono mult_left_mono) (simp_all add: p_def)
  then have "(\<Sum>k<n. p k * cos (2 * pi * real m * real k / real n)) / real n \<le>
             (\<Sum>k<n. p k * cos (2 * pi * real 0 * real k / real n)) / real n"
    using n by (simp add: divide_right_mono)
  then show ?thesis
    using assms n autocorrelation_nth [of m f] autocorrelation_nth [of 0 f]
    by (simp add: n_def p_def)
qed


lemma clipped_row_valid:
  assumes "v \<in> set (map (max 0) (py_slice (autocorrelation f) 0 pic_width))"
  shows "0 \<le> v \<and> v \<le> map (max 0) (py_slice (autocorrelation f) 0 pic_width) ! 0"
proof -
  define b where "b = slice_bound (length f) pic_width"
  have slice: "py_slice (autocorrelation f) 0 pic_width = take b (autocorrelation f)"
    by (simp add: py_slice_def slice_bound_def b_def)
  obtain i where i: "i < length (take b (autocorrelation f))"
      and v: "v = max 0 (take b (autocorrelation f) ! i)"
    using assms unfolding slice by (auto simp add: in_set_conv_nth)
  have ib: "i < b" "i < length f" "0 < b" "0 < length f"
    using i by auto
  have "autocorrelation f ! i \<le> autocorrelation f ! 0"
    using ib by (intro autocorrelation_le_zero_lag)
  then have "max 0 (autocorrelation f ! i) \<le> max 0 (autocorrelation f ! 0)"
    by (simp add: max_def)
  then show ?thesis
    using ib i by (simp add: slice v)
qed

lemma norm_row_valid:
  assumes "\<forall>v \<in> set r. 0 \<le> v \<and> v \<le> r ! 0" and "w \<in> set (norm_row r)"
  shows "0 \<le> w \<and> w \<le> norm_row r ! 0"
proof -
  define c where "c = (if good_row r then 1 / sqrt (r ! 0) else 0)"
  obtain v where v: "v \<in> set r" and w: "w = v * c"
    using assms(2) by (auto simp add: norm_row_def c_def)
  have r: "r \<noteq> []" using v by auto
  have c: "0 \<le> c"
    by (simp add: c_def good_row_def)
  have "0 \<le> v" "v \<le> r ! 0"
    using assms(1) v by simp_all
  then have "0 \<le> v * c" "v * c \<le> r ! 0 * c"
    using c by (simp_all add: mult_right_mono)
  moreover have "norm_row r ! 0 = r ! 0 * c"
    using r by (simp add: norm_row_def c_def)
  ultimately show ?thesis
    by (simp add: w)
qed

lemma raw_frame_structure:
  assumes "raw_frame data pic_width start win_len = Inr raw"
  shows "\<exists>ws s l n fs. sequence (map (windowed_row ws s l n) data) = Inr fs \<and>
           raw = map (\<lambda>row. map (max 0) (py_slice (autocorrelation row) 0 pic_width)) fs"
proof -
  define w where "w = (if win_len = 0 then int (last_dim data) else win_len)"
  obtain l where l: "math_log2 (2 * real_of_int (max pic_width w)) = Inr l"
    using assms by (cases "math_log2 (2 * real_of_int (max pic_width w))")
      (simp_all add: raw_frame_def Let_def w_def)
  obtain phi where phi: "py_div pi (real_of_int w) = Inr phi"
    using assms l by (cases "py_div pi (real_of_int w)")
      (simp_all add: raw_frame_def Let_def w_def)
  obtain ks where ks: "torch_arange 0 w = Inr ks"
    using assms l phi by (cases "torch_arange 0 w")
      (simp_all add: raw_frame_def Let_def w_def)
  define g where
    "g = windowed_row (window ks w phi) (max 0 start)
           (min (int (last_dim data)) (max 0 start + w)) (nat (py_int (2 powr real_of_int \<lceil>l\<rceil>)))"
  obtain fs where fs: "sequence (map g data) = Inr fs"
    using assms l phi ks by (cases "sequence (map g data)")
      (simp_all add: raw_frame_def Let_def w_def [symmetric] g_def)
  have "raw = map (\<lambda>row. map (max 0) (py_slice (autocorrelation row) 0 pic_width)) fs"
    using assms l phi ks fs
    by (simp add: raw_frame_def Let_def w_def [symmetric] g_def [symmetric])
  then show ?thesis
    using fs unfolding g_def by blast
qed

lemma raw_frame_rows:
  assumes "raw_frame data pic_width start win_len = Inr raw"
  shows "\<exists>n. \<forall>r \<in> set raw. \<exists>f. length f = n \<and>
           r = map (max 0) (py_slice (autocorrelation f) 0 pic_width)"
proof -
  obtain ws s l n fs
    where seq: "sequence (map (windowed_row ws s l n) data) = Inr fs"
      and raw: "raw = map (\<lambda>row. map (max 0) (py_slice (autocorrelation row) 0 pic_width)) fs"
    using raw_frame_structure [OF assms] by blast
  have "length f = n" if mem: "f \<in> set fs" for f
  proof -
    obtain j where j: "j < length fs" "fs ! j = f"
      using mem by (auto simp add: in_set_conv_nth)
    have jd: "j < length data"
      using sequence_Inr [OF seq] j by simp
    then have "map (windowed_row ws s l n) data ! j = Inr f"
      using sequence_Inr [OF seq] j by simp
    then have "windowed_row ws s l n (data ! j) = Inr f"
      using jd by simp
    then show ?thesis
      by (rule windowed_row_length)
  qed
  then show ?thesis
    using raw by (intro exI [of _ n]) auto
qed

text \<open>Every frame that the builder returns is a valid frame: no entry is negative, and
  no entry of a channel exceeds the channel's entry at lag 0.\<close>

lemma correlogram_frame_valid:
  assumes "correlogram_frame data pic_width start win_len = Inr pic"
  shows "valid_frame pic"
proof -
  obtain raw where raw: "raw_frame data pic_width start win_len = Inr raw"
      and pic: "pic = map norm_row raw"
    using assms by (auto simp add: correlogram_frame_def split: sum.splits if_splits)
  obtain n where rows: "\<forall>r \<in> set raw. \<exists>f. length f = n \<and>
      r = map (max 0) (py_slice (autocorrelation f) 0 pic_width)"
    using raw_frame_rows [OF raw] by blast
  define m where "m = slice_bound n pic_width"
  have len: "length r = m" if mem: "r \<in> set raw" for r
  proof -
    obtain f where "length f = n" "r = map (max 0) (py_slice (autocorrelation f) 0 pic_width)"
      using rows mem by blast
    then show ?thesis
      using slice_bound_le [of n pic_width] by (simp add: py_slice_def slice_bound_def m_def)
  qed
  have bounds: "\<forall>v \<in> set r. 0 \<le> v \<and> v \<le> r ! 0" if mem: "r \<in> set raw" for r
  proof -
    obtain f where "r = map (max 0) (py_slice (autocorrelation f) 0 pic_width)"
      using rows mem by blast
    then show ?thesis
      using clipped_row_valid by blast
  qed
  have dim: "last_dim pic = m" if "pic \<noteq> []"
    using that len by (cases raw) (simp_all add: pic last_dim_def)
  have "length row = last_dim pic \<and> (\<forall>v \<in> set row. 0 \<le> v \<and> v \<le> row ! 0)"
    if mem: "row \<in> set pic" for row
  proof -
    obtain r where r: "r \<in> set raw" and row: "row = norm_row r"
      using mem by (auto simp add: pic)
    have "pic \<noteq> []" using mem by auto
    then have "length row = last_dim pic"
      using dim len [OF r] by (simp add: row)
    moreover have "\<forall>v \<in> set row. 0 \<le> v \<and> v \<le> row ! 0"
      using norm_row_valid [OF bounds [OF r]] by (simp add: row)
    ultimately show ?thesis by simp
  qed
  then show ?thesis
    by (simp add: valid_frame_def)
qed

section \<open>Properties of the correlogram array builder\<close>

lemma negative_window_fails:
  assumes "win_len < 0" "0 < pic_width"
  shows "isl (raw_frame data pic_width start win_len)"
  using assms by (simp add: raw_frame_def math_log2_def py_div_def torch_arange_def Let_def)

lemma negative_window_frame_fails:
  assumes "win_len < 0" "0 < pic_width"
  shows "isl (correlogram_frame data pic_width start win_len)"
  using negative_window_fails [OF assms, of data start]
  by (cases "raw_frame data pic_width start win_len") (simp_all add: correlogram_frame_def)

text \<open>
  Claim C8, as amended. Let the signal be shorter than the requested width, and let
  \<open>frame_increment = int(sr / frame_rate)\<close>. If \<open>0 < frame_increment \<le> width - T\<close>, no frame
  is computed and the concatenation of the empty list of frames fails. Whenever the
  builder does return a movie, \<open>width - T < frame_increment\<close> and the movie has exactly
  one frame (the one starting at sample 0): \<^verbatim>\<open>int\<close> rounds the negative quotient
  \<open>(T - width) / frame_increment\<close> up to 0.
\<close>

theorem correlogram_array_short_signal:
  assumes short: "int (last_dim data) < width"
  shows "(0 < py_int (sr / real_of_int frame_rate) \<and>
          py_int (sr / real_of_int frame_rate) \<le> width - int (last_dim data) \<longrightarrow>
            correlogram_array data sr frame_rate width = Inl RuntimeError) \<and>
         (\<forall>movie. correlogram_array data sr frame_rate width = Inr movie \<longrightarrow>
            length movie = 1 \<and> width - int (last_dim data) < py_int (sr / real_of_int frame_rate))"
proof -
  define T where "T = int (last_dim data)"
  define fi where "fi = py_int (sr / real_of_int frame_rate)"
  define r where "r = real_of_int (T - width) / real_of_int fi"
  define frames where
    "frames = map (\<lambda>i. correlogram_frame data width (i * fi) (fi * 4)) [0..py_int r + 1 - 1]"
  have unfold: "correlogram_array data sr frame_rate width =
      (if frame_rate = 0 then Inl ZeroDivisionError
       else if fi = 0 then Inl ZeroDivisionError
       else case sequence frames of Inl e \<Rightarrow> Inl e
            | Inr movie \<Rightarrow> if movie = [] then Inl RuntimeError else Inr movie)"
    by (simp add: correlogram_array_def py_div_def Let_def T_def fi_def r_def frames_def)
  have neg: "real_of_int (T - width) < 0"
    using short by (simp add: T_def)
  have part1: "correlogram_array data sr frame_rate width = Inl RuntimeError"
    if "0 < fi" "fi \<le> width - T"
  proof -
    have "real_of_int (T - width) \<le> - real_of_int fi"
      using that by linarith
    then have "r \<le> - 1"
      using that(1) by (simp add: r_def field_simps)
    then have "py_int r \<le> - 1"
      by (simp add: py_int_def ceiling_le_iff)
    then have "frames = []"
      by (simp add: frames_def)
    moreover have "frame_rate \<noteq> 0"
      using that(1) by (auto simp add: fi_def py_int_def)
    ultimately show ?thesis
      using that(1) by (simp add: unfold)
  qed
  have part2: "length movie = 1 \<and> width - T < fi"
    if ret: "correlogram_array data sr frame_rate width = Inr movie" for movie
  proof -
    have fi0: "fi \<noteq> 0" and seq: "sequence frames = Inr movie"
      using ret by (auto simp add: unfold split: if_splits sum.splits)
    have pos: "0 < fi"
    proof (rule ccontr)
      assume "\<not> 0 < fi"
      then have fineg: "fi < 0" using fi0 by simp
      then have "0 < r"
        using neg by (simp add: r_def zero_less_divide_iff)
      then have "0 \<le> py_int r"
        by (simp add: py_int_def)
      then have "[0..py_int r + 1 - 1] = 0 # [0 + 1..py_int r + 1 - 1]"
        by (simp add: upto_rec1)
      then have "frames = correlogram_frame data width (0 * fi) (fi * 4) #
                   map (\<lambda>i. correlogram_frame data width (i * fi) (fi * 4)) [0 + 1..py_int r + 1 - 1]"
        by (simp add: frames_def)
      moreover have "isl (correlogram_frame data width (0 * fi) (fi * 4))"
        using fineg short by (intro negative_window_frame_fails) simp_all
      ultimately have "isl (sequence frames)"
        by (simp only: sequence_isl_head)
      then show False using seq by simp
    qed
    have small: "width - T < fi"
    proof (rule ccontr)
      assume "\<not> width - T < fi"
      then have "correlogram_array data sr frame_rate width = Inl RuntimeError"
        using part1 pos by simp
      then show False using ret by simp
    qed
    have "- 1 < r"
      using pos small by (simp add: r_def field_simps)
    moreover have "r < 0"
      using pos neg by (simp add: r_def divide_neg_pos)
    ultimately have "py_int r = 0"
      by (simp add: py_int_def ceiling_eq_iff)
    then have "length frames = 1"
      by (simp add: frames_def)
    then show ?thesis
      using sequence_Inr [OF seq] small by simp
  qed
  show ?thesis
    using part1 part2 unfolding T_def fi_def by blast
qed


lemma log2_16: "log 2 16 = 4"
proof -
  have "log 2 (2 ^ 4) = real 4" by (rule log_pow_cancel) simp_all
  then show ?thesis by simp
qed

lemma short_windowed_row:
  "length ws = 8 \<Longrightarrow>
   windowed_row ws 0 3 16 [1, 1, 1] = Inr (map2 (*) [1, 1, 1] (take 3 ws) @ replicate 13 0)"
  by (simp add: windowed_row_def py_slice_def slice_bound_def broadcast2_def slice_assign_def)

lemma short_raw_frame:
  "\<exists>r. raw_frame [[1, 1, 1]] 4 0 8 = Inr [r] \<and> length r = 4"
proof -
  define ws where "ws = window [0..7] 8 (pi / 8)"
  have len: "length ws = 8"
    by (simp add: ws_def window_def)
  define f where "f = map2 (*) [1, 1, 1] (take 3 ws) @ replicate 13 0"
  have flen: "length f = 16"
    using len by (simp add: f_def)
  have "raw_frame [[1, 1, 1]] 4 0 8 = Inr [map (max 0) (py_slice (autocorrelation f) 0 4)]"
    using short_windowed_row [OF len]
    by (simp add: raw_frame_def last_dim_def math_log2_def log2_16 py_int_def py_div_def
        torch_arange_def ws_def [symmetric] f_def [symmetric])
  moreover have "length (map (max 0) (py_slice (autocorrelation f) 0 4)) = 4"
    using flen by (simp add: py_slice_def slice_bound_def)
  ultimately show ?thesis by blast
qed

lemma short_frame:
  "\<exists>r. correlogram_frame [[1, 1, 1]] 4 0 8 = Inr [r]"
proof -
  obtain r where "raw_frame [[1, 1, 1]] 4 0 8 = Inr [r]" "length r = 4"
    using short_raw_frame by blast
  then show ?thesis
    by (simp add: correlogram_frame_def)
qed

text \<open>
  Claim C8 as stated fails: a signal of three samples, analysed with a width of four lags
  at a sample rate of 2 and a frame rate of 1, yields an ordinary movie of one frame.
\<close>

theorem correlogram_array_short_signal_counterexample:
  "int (last_dim [[1, 1, 1 :: real]]) < 4 \<and>
   map_sum id length (correlogram_array [[1, 1, 1]] 2 1 4) = Inr 1"
proof -
  obtain r where "correlogram_frame [[1, 1, 1]] 4 0 8 = Inr [r]"
    using short_frame by blast
  then show ?thesis
    by (simp add: correlogram_array_def last_dim_def py_div_def py_int_def upto.simps)
qed

text \<open>The theorem on the same signal at a frame rate of 2, where the frame increment
  is 1 and no frame is computed.\<close>

theorem correlogram_array_short_signal_witness:
  "int (last_dim [[1, 1, 1 :: real]]) < 4 \<and>
   correlogram_array [[1, 1, 1]] 2 2 4 = Inl RuntimeError"
proof -
  have short: "int (last_dim [[1, 1, 1 :: real]]) < 4"
    by (simp add: last_dim_def)
  have "0 < py_int (2 / real_of_int 2) \<and> py_int (2 / real_of_int 2) \<le> 4 - int (last_dim [[1, 1, 1 :: real]])"
    by (simp add: py_int_def last_dim_def)
  then show ?thesis
    using correlogram_array_short_signal [OF short, of 2 2] short by blast
qed

text \<open>On a signal of at least three lags of width, shorter than the width by less than
  one frame increment, the builder does return a movie of one frame.\<close>

lemma correlogram_array_one_frame:
  assumes rect: "\<forall>row \<in> set data. length row = last_dim data"
    and width: "3 \<le> width" and short: "int (last_dim data) < width"
    and small: "width - int (last_dim data) < py_int (sr / real_of_int frame_rate)"
  shows "\<exists>frame. correlogram_array data sr frame_rate width = Inr [frame]"
proof -
  define T where "T = int (last_dim data)"
  define fi where "fi = py_int (sr / real_of_int frame_rate)"
  define r where "r = (real_of_int T - real_of_int width) / real_of_int fi"
  have pos: "0 < fi"
    using short small by (simp add: fi_def)
  then have rate: "frame_rate \<noteq> 0"
    by (auto simp add: fi_def py_int_def)
  have "- 1 < r"
    using pos small by (simp add: r_def field_simps T_def fi_def)
  moreover have "r < 0"
    using pos short by (simp add: r_def divide_neg_pos T_def)
  ultimately have count: "py_int r = 0"
    by (simp add: py_int_def ceiling_eq_iff)
  obtain frame where frame: "correlogram_frame data width (0 * fi) (fi * 4) = Inr frame"
    using correlogram_frame_returns [OF rect width, of "fi * 4" "0 * fi"] pos by auto
  have "[0..py_int r + 1 - 1] = [0]"
    by (simp add: count upto.simps)
  then show ?thesis
    using rate pos frame
    by (simp add: correlogram_array_def py_div_def Let_def T_def [symmetric] fi_def [symmetric]
        r_def [symmetric])
qed

text \<open>Every frame of a movie that the builder returns is a valid frame.\<close>

lemma correlogram_array_valid:
  assumes "correlogram_array data sr frame_rate width = Inr movie" and "frame \<in> set movie"
  shows "valid_frame frame"
proof -
  obtain q k where qk: "sequence (map (\<lambda>i. correlogram_frame data width (i * q) (q * 4)) [0..k]) =
      Inr movie"
    using assms(1)
    by (auto simp add: correlogram_array_def Let_def split: sum.splits if_splits)
  define frames where "frames = map (\<lambda>i. correlogram_frame data width (i * q) (q * 4)) [0..k]"
  have seq: "sequence frames = Inr movie"
    using qk by (simp add: frames_def)
  have frames: "\<forall>r \<in> set frames. \<exists>s w. r = correlogram_frame data width s w"
    by (auto simp add: frames_def)
  obtain j where j: "j < length movie" "movie ! j = frame"
    using assms(2) by (auto simp add: in_set_conv_nth)
  then have "j < length frames" and "frames ! j = Inr frame"
    using sequence_Inr [OF seq] by simp_all
  then obtain s w where "correlogram_frame data width s w = Inr frame"
    using frames by (metis nth_mem)
  then show ?thesis
    by (rule correlogram_frame_valid)
qed

section \<open>Properties of the pitch extractor\<close>

lemma slice_fill_length [simp]: "length (slice_fill xs lo hi v) = length xs"
  by (simp add: slice_fill_def)

lemma slice_fill_nth:
  "i < length xs \<Longrightarrow>
   slice_fill xs lo hi v ! i =
     (if slice_bound (length xs) lo \<le> i \<and> i < slice_bound (length xs) hi then v else xs ! i)"
  by (simp add: slice_fill_def)

lemma argmax_from_bound:
  "best_i < i \<Longrightarrow> argmax_from xs i best_i best_v < i + length xs"
proof (induction xs arbitrary: i best_i best_v)
  case Nil
  then show ?case by simp
next
  case (Cons a xs)
  have "argmax_from xs (Suc i) i a < Suc i + length xs"
    by (rule Cons.IH) simp
  moreover have "argmax_from xs (Suc i) best_i best_v < Suc i + length xs"
    using Cons.prems by (intro Cons.IH) simp
  ultimately show ?case by simp
qed

lemma argmax_less: "v \<noteq> [] \<Longrightarrow> argmax v < length v"
  using argmax_from_bound [of 0 1 "tl v" "hd v"] by (cases v) (simp_all add: argmax_def)


lemma channel_sum_length [simp]: "length (channel_sum frame) = last_dim frame"
  by (simp add: channel_sum_def)

lemma sum_list_bounds:
  fixes f g :: "'a \<Rightarrow> real"
  assumes "\<forall>x \<in> set xs. 0 \<le> f x \<and> f x \<le> g x"
  shows "0 \<le> sum_list (map f xs) \<and> sum_list (map f xs) \<le> sum_list (map g xs)"
  using assms by (induction xs) (auto simp add: add_mono)

lemma channel_sum_bounds:
  assumes "valid_frame frame" "i < last_dim frame"
  shows "0 \<le> channel_sum frame ! i \<and> channel_sum frame ! i \<le> channel_sum frame ! 0"
proof -
  have "0 \<le> row ! i \<and> row ! i \<le> row ! 0" if "row \<in> set frame" for row
  proof -
    have "length row = last_dim frame" and "\<forall>v \<in> set row. 0 \<le> v \<and> v \<le> row ! 0"
      using assms(1) that by (simp_all add: valid_frame_def)
    then show ?thesis using assms(2) by (metis nth_mem)
  qed
  then have "0 \<le> sum_list (map (\<lambda>row. row ! i) frame) \<and>
             sum_list (map (\<lambda>row. row ! i) frame) \<le> sum_list (map (\<lambda>row. row ! 0) frame)"
    by (intro sum_list_bounds) simp
  then show ?thesis
    using assms(2) by (simp add: channel_sum_def)
qed

lemma masked_summary_length [simp]:
  "length (masked_summary summary valley dl dh) = length summary"
  by (simp add: masked_summary_def Let_def)

lemma masked_summary_nth:
  assumes "i < length summary"
  shows "masked_summary summary valley dl dh ! i =
           (if slice_bound (length summary) dh \<le> i then 0
            else if slice_bound (length summary) 1 \<le> i \<and> i < slice_bound (length summary) dl then 0
            else if i < slice_bound (length summary) (int valley) then 0
            else summary ! i)"
  using assms by (simp add: masked_summary_def Let_def slice_fill_nth slice_bound_def)

lemma masked_summary_cases:
  assumes "i < length summary"
  shows "masked_summary summary valley dl dh ! i = 0 \<or>
         masked_summary summary valley dl dh ! i = summary ! i"
  using assms by (simp add: masked_summary_nth)


lemma correlogram_pitch_frame:
  assumes "correlogram_pitch movie width sr lp hp = Inr (pitch, sal)" and "j < length movie"
  shows "pitch_frame (movie ! j) width sr (py_int (sr / hp))
           (if lp > 0 then min width \<lceil>sr / lp\<rceil> else width) = Inr (pitch ! j, sal ! j)"
proof -
  define body where
    "body = (\<lambda>frame. pitch_frame frame width sr (py_int (sr / hp))
               (if lp > 0 then min width \<lceil>sr / lp\<rceil> else width))"
  obtain ps where ps: "sequence (map body movie) = Inr ps"
      and res: "pitch = map fst ps" "sal = map snd ps"
    using assms(1)
    by (auto simp add: correlogram_pitch_def py_div_def body_def Let_def
        split: if_splits sum.splits)
  have "length ps = length movie" and "map body movie ! j = Inr (ps ! j)"
    using sequence_Inr [OF ps] assms(2) by simp_all
  then show ?thesis
    using assms(2) res by (simp add: body_def)
qed

lemma pitch_frame_Inr:
  assumes "pitch_frame frame width sr dl dh = Inr (pt, sl)"
  shows "\<exists>v. channel_sum frame \<noteq> [] \<and> find_valley (channel_sum frame) width = Inr v \<and>
           pt = (let p = argmax (masked_summary (channel_sum frame) v dl dh)
                 in if p > 0 then sr / real p else 0) \<and>
           sl = (if channel_sum frame ! 0 = 0 then None
                 else Some (masked_summary (channel_sum frame) v dl dh !
                              argmax (masked_summary (channel_sum frame) v dl dh) /
                            channel_sum frame ! 0))"
  using assms by (auto simp add: pitch_frame_def Let_def split: if_splits sum.splits)

text \<open>
  Claim C3. Whenever \<^verbatim>\<open>correlogram_pitch\<close> returns, every frame that is a valid
  correlogram frame (no negative entry, no entry of a channel above the channel's entry
  at lag 0) and whose summed lag-0 value \<^verbatim>\<open>zero_lag\<close> is positive gets a salience
  \<open>summary[p] / zero_lag\<close> in the closed interval from 0 to 1.
\<close>

theorem salience_in_unit_interval:
  assumes ret: "correlogram_pitch movie width sr low_pitch high_pitch = Inr (pitch, salience)"
    and j: "j < length movie"
    and valid: "valid_frame (movie ! j)"
    and zero_lag: "0 < channel_sum (movie ! j) ! 0"
  shows "\<exists>s. salience ! j = Some s \<and> 0 \<le> s \<and> s \<le> 1"
proof -
  define summary where "summary = channel_sum (movie ! j)"
  obtain v where ne: "summary \<noteq> []"
      and sal: "salience ! j =
                  (if summary ! 0 = 0 then None
                   else Some (masked_summary summary v (py_int (sr / high_pitch))
                                (if low_pitch > 0 then min width \<lceil>sr / low_pitch\<rceil> else width) !
                              argmax (masked_summary summary v (py_int (sr / high_pitch))
                                (if low_pitch > 0 then min width \<lceil>sr / low_pitch\<rceil> else width)) /
                              summary ! 0))"
    using pitch_frame_Inr [OF correlogram_pitch_frame [OF ret j]] unfolding summary_def by blast
  define s where
    "s = masked_summary summary v (py_int (sr / high_pitch))
           (if low_pitch > 0 then min width \<lceil>sr / low_pitch\<rceil> else width)"
  define p where "p = argmax s"
  have len: "length s = length summary"
    by (simp add: s_def)
  have "s \<noteq> []"
    using ne len by (cases s) auto
  then have p: "p < length summary"
    using argmax_less [of s] len unfolding p_def by simp
  have bounds: "0 \<le> summary ! p \<and> summary ! p \<le> summary ! 0"
    using channel_sum_bounds [OF valid, of p] p by (simp add: summary_def)
  have "s ! p = 0 \<or> s ! p = summary ! p"
    unfolding s_def by (rule masked_summary_cases [OF p])
  then have "0 \<le> s ! p \<and> s ! p \<le> summary ! 0"
    using bounds zero_lag by (auto simp add: summary_def)
  then have "0 \<le> s ! p / summary ! 0 \<and> s ! p / summary ! 0 \<le> 1"
    using zero_lag by (simp add: summary_def)
  moreover have "salience ! j = Some (s ! p / summary ! 0)"
    using sal zero_lag by (simp add: s_def p_def summary_def)
  ultimately show ?thesis by blast
qed

lemma masked_summary_spec:
  assumes width: "int (last_dim frame) \<le> width" and sr: "0 \<le> sr"
    and low: "0 \<le> low_pitch" and high: "low_pitch < high_pitch"
  shows "masked_summary (channel_sum frame) valley (py_int (sr / high_pitch))
           (if low_pitch > 0 then min width \<lceil>sr / low_pitch\<rceil> else width) =
         spec_summary frame valley width sr low_pitch high_pitch"
proof (rule nth_equalityI)
  show "length (masked_summary (channel_sum frame) valley (py_int (sr / high_pitch))
           (if low_pitch > 0 then min width \<lceil>sr / low_pitch\<rceil> else width)) =
        length (spec_summary frame valley width sr low_pitch high_pitch)"
    by (simp add: spec_summary_def)
next
  fix i
  assume "i < length (masked_summary (channel_sum frame) valley (py_int (sr / high_pitch))
           (if low_pitch > 0 then min width \<lceil>sr / low_pitch\<rceil> else width))"
  then have i: "i < last_dim frame" by simp
  define W where "W = last_dim frame"
  define d where "d = \<lfloor>sr / high_pitch\<rfloor>"
  define c where "c = (if low_pitch > 0 then \<lceil>sr / low_pitch\<rceil> else width)"
  have q: "0 \<le> sr / high_pitch" using sr low high by simp
  then have dl: "py_int (sr / high_pitch) = d" and d0: "0 \<le> d"
    by (simp_all add: py_int_def d_def)
  have c0: "0 \<le> c"
  proof (cases "0 < low_pitch")
    case True
    then have "0 \<le> sr / low_pitch" using sr by simp
    then show ?thesis using True by (simp add: c_def zero_le_ceiling)
  next
    case False
    then show ?thesis using width by (simp add: c_def)
  qed
  have dh: "(if low_pitch > 0 then min width \<lceil>sr / low_pitch\<rceil> else width) = min width c"
    by (simp add: c_def)
  have iW: "i < W" and wW: "int W \<le> width"
    using i width by (simp_all add: W_def)
  have e1: "slice_bound W (min width c) \<le> i \<longleftrightarrow> c \<le> int i"
    using iW wW c0 by (auto simp add: slice_bound_def)
  have e2: "slice_bound W 1 \<le> i \<and> i < slice_bound W d \<longleftrightarrow> 1 \<le> int i \<and> int i \<le> d - 1"
    using iW d0 by (auto simp add: slice_bound_def)
  have e3: "i < slice_bound W (int valley) \<longleftrightarrow> i < valley"
    using iW by (auto simp add: slice_bound_def)
  have "masked_summary (channel_sum frame) valley d (min width c) ! i =
          (if i < valley then 0
           else if 1 \<le> int i \<and> int i \<le> d - 1 then 0
           else if c \<le> int i then 0
           else channel_sum frame ! i)"
    using iW e1 e2 e3 by (simp add: masked_summary_nth W_def [symmetric])
  also have "\<dots> = spec_summary frame valley width sr low_pitch high_pitch ! i"
    using i by (simp add: spec_summary_def d_def c_def)
  finally show "masked_summary (channel_sum frame) valley (py_int (sr / high_pitch))
           (if low_pitch > 0 then min width \<lceil>sr / low_pitch\<rceil> else width) ! i =
        spec_summary frame valley width sr low_pitch high_pitch ! i"
    by (simp only: dl dh)
qed

text \<open>
  Claim C5. Whenever \<^verbatim>\<open>correlogram_pitch\<close> returns on a movie whose frames have
  \<open>width\<close> lags (or fewer), with \<open>0 \<le> sr\<close> and \<open>0 \<le> low_pitch < high_pitch\<close>, the pitch
  reported for a frame is \<open>sr / p\<close> for \<open>p > 0\<close> and 0 for \<open>p = 0\<close>, where \<open>p\<close> is the first
  maximal lag
  of the summary masked as the specification words it: zero before the valley, zero on
  the lags 1 to \<open>floor(sr/high_pitch) - 1\<close>, and zero from \<open>ceil(sr/low_pitch)\<close> on when
  \<open>low_pitch > 0\<close> (from \<open>width\<close> on otherwise).
\<close>

theorem reported_pitch:
  assumes ret: "correlogram_pitch movie width sr low_pitch high_pitch = Inr (pitch, salience)"
    and j: "j < length movie"
    and width: "int (last_dim (movie ! j)) \<le> width"
    and sr: "0 \<le> sr" and low: "0 \<le> low_pitch" and high: "low_pitch < high_pitch"
  shows "\<exists>valley. find_valley (channel_sum (movie ! j)) width = Inr valley \<and>
           pitch ! j =
             (let p = argmax (spec_summary (movie ! j) valley width sr low_pitch high_pitch)
              in if p > 0 then sr / real p else 0)"
  using pitch_frame_Inr [OF correlogram_pitch_frame [OF ret j]]
    masked_summary_spec [OF width sr low high]
  by auto

subsection \<open>The smoothing coefficients\<close>

lemma b_coefs_eq: "b_coefs = [1, 1, 1, 1, 1, 1, 1, 1, 1, 1, 1, 1, 1, 1, 1, 1]"
  by (simp add: b_coefs_def window_length_def numeral_eq_Suc)

lemma a_coefs_eq: "a_coefs = [1, 0, 0, 0, 0, 0, 0, 0, 0, 0, 0, 0, 0, 0, 0, 0]"
  by (simp add: a_coefs_def window_length_def numeral_eq_Suc)

lemma channel_sum_single: "channel_sum [row] = row"
  by (simp add: channel_sum_def last_dim_def map_nth)

subsection \<open>A frame without a valley\<close>

lemma impulse_sumfilt:
  "lfilter1 [1, 0, 0, 0, 0, 0, 0, 0, 0, 0, 0, 0, 0, 0, 0, 0, 0, 0, 0, 0] a_coefs b_coefs =
     [1, 1, 1, 1, 1, 1, 1, 1, 1, 1, 1, 1, 1, 1, 1, 1, 0, 0, 0, 0]"
  by (simp add: lfilter1_def a_coefs_eq b_coefs_eq dot_def)

lemma impulse_sumdif:
  "broadcast2 (-)
     (py_slice [1, 1, 1, 1, 1, 1, 1, 1, 1, 1, 1, 1, 1, 1, 1, 1, 0, 0, 0, 0 :: real] 1 20)
     (py_slice [1, 1, 1, 1, 1, 1, 1, 1, 1, 1, 1, 1, 1, 1, 1, 1, 0, 0, 0, 0] 0 (20 - 1)) =
   Inr [0, 0, 0, 0, 0, 0, 0, 0, 0, 0, 0, 0, 0, 0, 0, - 1, 0, 0, 0]"
  by (simp add: broadcast2_def py_slice_def slice_bound_def)

lemma impulse_sumdif_masked:
  "slice_fill [0, 0, 0, 0, 0, 0, 0, 0, 0, 0, 0, 0, 0, 0, 0, - 1, 0, 0, 0 :: real] 0 16 0 =
     [0, 0, 0, 0, 0, 0, 0, 0, 0, 0, 0, 0, 0, 0, 0, 0, 0, 0, 0]"
  by (simp add: slice_fill_def slice_bound_def upt_conv_Cons)

lemma impulse_valleys:
  "argwhere_pos [0, 0, 0, 0, 0, 0, 0, 0, 0, 0, 0, 0, 0, 0, 0, 0, 0, 0, 0] = []"
  by (simp add: argwhere_pos_def upt_conv_Cons)

lemma impulse_find_valley:
  "find_valley [1, 0, 0, 0, 0, 0, 0, 0, 0, 0, 0, 0, 0, 0, 0, 0, 0, 0, 0, 0] 20 = Inl IndexError"
  using impulse_sumdif
  by (simp add: find_valley_def impulse_sumfilt impulse_sumdif_masked impulse_valleys
      window_length_def)

lemma impulse_frame_valid:
  "valid_frame [[1, 0, 0, 0, 0, 0, 0, 0, 0, 0, 0, 0, 0, 0, 0, 0, 0, 0, 0, 0]]"
  by (simp add: valid_frame_def last_dim_def)

lemma impulse_pitch_frame:
  "pitch_frame [[1, 0, 0, 0, 0, 0, 0, 0, 0, 0, 0, 0, 0, 0, 0, 0, 0, 0, 0, 0]] 20 sr dl dh =
     Inl IndexError"
  by (simp add: pitch_frame_def channel_sum_single impulse_find_valley)

text \<open>
  Claim C10. The movie with one frame and one channel whose correlogram is 1 at lag 0
  and 0 at the other 19 lags is three-dimensional and non-negative. Its smoothed summary
  never rises, so the valley search finds no index, and \<^verbatim>\<open>correlogram_pitch\<close> (with its
  default sample rate and pitch range) ends with an index error instead of a pitch and a
  salience.
\<close>

theorem correlogram_pitch_no_valley:
  "find_valley (channel_sum [[1, 0, 0, 0, 0, 0, 0, 0, 0, 0, 0, 0, 0, 0, 0, 0, 0, 0, 0, 0]]) 20 =
     Inl IndexError \<and>
   correlogram_pitch [[[1, 0, 0, 0, 0, 0, 0, 0, 0, 0, 0, 0, 0, 0, 0, 0, 0, 0, 0, 0]]]
     20 22254.54 0 20000 = Inl IndexError"
  by (simp add: correlogram_pitch_def py_div_def impulse_pitch_frame channel_sum_single
      impulse_find_valley)


subsection \<open>A frame with a peak at lag 17\<close>

lemma example_sumfilt:
  "lfilter1 [1, 0, 0, 0, 0, 0, 0, 0, 0, 0, 0, 0, 0, 0, 0, 0, 0, 1] a_coefs b_coefs =
     [1, 1, 1, 1, 1, 1, 1, 1, 1, 1, 1, 1, 1, 1, 1, 1, 0, 1]"
  by (simp add: lfilter1_def a_coefs_eq b_coefs_eq dot_def)

lemma example_sumdif:
  "broadcast2 (-)
     (py_slice [1, 1, 1, 1, 1, 1, 1, 1, 1, 1, 1, 1, 1, 1, 1, 1, 0, 1 :: real] 1 18)
     (py_slice [1, 1, 1, 1, 1, 1, 1, 1, 1, 1, 1, 1, 1, 1, 1, 1, 0, 1] 0 (18 - 1)) =
   Inr [0, 0, 0, 0, 0, 0, 0, 0, 0, 0, 0, 0, 0, 0, 0, - 1, 1]"
  by (simp add: broadcast2_def py_slice_def slice_bound_def)

lemma example_sumdif_masked:
  "slice_fill [0, 0, 0, 0, 0, 0, 0, 0, 0, 0, 0, 0, 0, 0, 0, - 1, 1 :: real] 0 16 0 =
     [0, 0, 0, 0, 0, 0, 0, 0, 0, 0, 0, 0, 0, 0, 0, 0, 1]"
  by (simp add: slice_fill_def slice_bound_def upt_conv_Cons)

lemma example_valleys:
  "argwhere_pos [0, 0, 0, 0, 0, 0, 0, 0, 0, 0, 0, 0, 0, 0, 0, 0, 1] = [16]"
  by (simp add: argwhere_pos_def upt_conv_Cons)

lemma example_find_valley:
  "find_valley [1, 0, 0, 0, 0, 0, 0, 0, 0, 0, 0, 0, 0, 0, 0, 0, 0, 1] 18 = Inr 16"
  using example_sumdif
  by (simp add: find_valley_def example_sumfilt example_sumdif_masked example_valleys
      window_length_def)

lemma example_masked:
  "masked_summary [1, 0, 0, 0, 0, 0, 0, 0, 0, 0, 0, 0, 0, 0, 0, 0, 0, 1] 16 0 18 =
     [0, 0, 0, 0, 0, 0, 0, 0, 0, 0, 0, 0, 0, 0, 0, 0, 0, 1]"
  by (simp add: masked_summary_def slice_fill_def slice_bound_def upt_conv_Cons)

lemma example_argmax:
  "argmax [0, 0, 0, 0, 0, 0, 0, 0, 0, 0, 0, 0, 0, 0, 0, 0, 0, 1] = 17"
  by (simp add: argmax_def)

lemma example_pitch_frame:
  "pitch_frame [[1, 0, 0, 0, 0, 0, 0, 0, 0, 0, 0, 0, 0, 0, 0, 0, 0, 1]] 18 sr 0 18 =
     Inr (sr / 17, Some 1)"
  by (simp add: pitch_frame_def channel_sum_single example_find_valley example_masked
      example_argmax)

lemma example_valid: "valid_frame (example_movie ! 0)"
  by (simp add: valid_frame_def example_movie_def last_dim_def)

lemma example_pitch_default:
  "correlogram_pitch example_movie 18 16000 0 20000 = Inr ([16000 / 17], [Some 1])"
  by (simp add: correlogram_pitch_def py_div_def py_int_def example_movie_def
      example_pitch_frame)

lemma example_pitch_low:
  "correlogram_pitch example_movie 18 16000 100 20000 = Inr ([16000 / 17], [Some 1])"
  by (simp add: correlogram_pitch_def py_div_def py_int_def example_movie_def
      example_pitch_frame)

text \<open>The theorem of claim C3 on the example movie, with the default pitch range.\<close>

theorem salience_in_unit_interval_witness:
  "correlogram_pitch example_movie 18 16000 0 20000 = Inr ([16000 / 17], [Some 1]) \<and>
   valid_frame (example_movie ! 0) \<and> 0 < channel_sum (example_movie ! 0) ! 0 \<and>
   (\<exists>s. [Some (1 :: real)] ! 0 = Some s \<and> 0 \<le> s \<and> s \<le> 1)"
proof -
  have zero_lag: "0 < channel_sum (example_movie ! 0) ! 0"
    by (simp add: example_movie_def channel_sum_single)
  have j: "0 < length example_movie"
    by (simp add: example_movie_def)
  show ?thesis
    using salience_in_unit_interval [OF example_pitch_default j example_valid zero_lag]
      example_pitch_default example_valid zero_lag
    by simp
qed

text \<open>The theorem of claim C5 on the example movie, with a lowest pitch of 100 Hz.\<close>

theorem reported_pitch_witness:
  "correlogram_pitch example_movie 18 16000 100 20000 = Inr ([16000 / 17], [Some 1]) \<and>
   (\<exists>valley. find_valley (channel_sum (example_movie ! 0)) 18 = Inr valley \<and>
      [16000 / 17 :: real] ! 0 =
        (let p = argmax (spec_summary (example_movie ! 0) valley 18 16000 100 20000)
         in if p > 0 then 16000 / real p else 0))"
proof -
  have j: "0 < length example_movie"
    by (simp add: example_movie_def)
  have width: "int (last_dim (example_movie ! 0)) \<le> 18"
    by (simp add: example_movie_def last_dim_def)
  show ?thesis
    using reported_pitch [OF example_pitch_low j width] example_pitch_low by simp
qed

end
